theory Spec2Isabelle
  imports Complex_Main
begin

section \<open>Data model of \<open>src/index.ts\<close>\<close>

text \<open>
  The repository is one TypeScript module: a Durable Object class \<open>MyDurableObject\<close> that
  keeps, per document, the expected number of pages and the set of finished pages; an HTTP
  handler \<open>/send_to_queue\<close> that initialises a document and submits one batch of page
  messages; an HTTP handler \<open>/status\<close>; and the queue consumer \<open>queue\<close>.

  JavaScript numbers are modelled as \<open>int\<close> (page numbers, amounts, clock readings in
  milliseconds) and as \<open>real\<close> (the delay, the result of \<open>Math.random()\<close>). \<open>NaN\<close> only
  arises as the result of \<open>parseInt\<close> and is the value \<open>None\<close> there. Rounding of integers
  beyond \<open>2^53\<close> is not modelled.
\<close>

datatype message_type = Page | End

record QueueMessage =
  type :: message_type
  start_time :: int
  document_id :: string
  page :: "int option"
  total_pages :: "int option"

record Env =
  DELAY_PER_QUEUE_EXECUTION :: real
  RANDOMIZE_TO_MAX :: bool

text \<open>
  A JavaScript \<open>Set<number>\<close> keeps its elements without duplicates in insertion order
  (\<open>Array.from\<close> in \<open>/status\<close> reads that order): a list, \<open>add\<close> appending an element
  that is not yet there, \<open>size\<close> its length.
\<close>

type_synonym number_set = "int list"

definition set_add :: "int \<Rightarrow> number_set \<Rightarrow> number_set" where
  "set_add x s = (if x \<in> set s then s else s @ [x])"

definition set_size :: "number_set \<Rightarrow> int" where
  "set_size s = int (length s)"

text \<open>
  The storage of one Durable Object: the two keys the class uses. A key that was never
  put, or was removed by \<open>deleteAll\<close>, reads as \<open>undefined\<close>: \<open>None\<close>.
\<close>

record storage =
  amount_of_pages :: "int option"
  finished_pages :: "number_set option"

definition empty_storage :: storage where
  "empty_storage = \<lparr>amount_of_pages = None, finished_pages = None\<rparr>"

text \<open>\<open>(await this.ctx.storage.get('finished_pages')) || new Set()\<close>: a set is always truthy.\<close>

definition stored_finished_pages :: "storage \<Rightarrow> number_set" where
  "stored_finished_pages st = (case finished_pages st of None \<Rightarrow> [] | Some s \<Rightarrow> s)"

text \<open>\<open>(await this.ctx.storage.get('amount_of_pages')) || 0\<close>: \<open>undefined\<close> and \<open>0\<close> are falsy.\<close>

definition stored_amount_of_pages :: "storage \<Rightarrow> int" where
  "stored_amount_of_pages st =
     (case amount_of_pages st of None \<Rightarrow> 0 | Some a \<Rightarrow> if a = 0 then 0 else a)"

subsection \<open>The methods of \<open>MyDurableObject\<close>\<close>

definition set_amount_of_pages :: "int \<Rightarrow> storage \<Rightarrow> storage" where
  "set_amount_of_pages amount st = st\<lparr>amount_of_pages := Some amount\<rparr>"

definition finished_page :: "int \<Rightarrow> storage \<Rightarrow> storage" where
  "finished_page page_num st =
     st\<lparr>finished_pages := Some (set_add page_num (stored_finished_pages st))\<rparr>"

definition is_finished :: "storage \<Rightarrow> bool" where
  "is_finished st =
     (if set_size (stored_finished_pages st) = stored_amount_of_pages st then True else False)"

definition get_finished_pages :: "storage \<Rightarrow> number_set" where
  "get_finished_pages st = stored_finished_pages st"

definition delete :: "storage \<Rightarrow> storage" where
  "delete st = empty_storage"

subsection \<open>The world outside the handlers\<close>

text \<open>
  Every effect of a handler is an event of the trace, in program order: a call of a
  method of the Durable Object named by a document id (with its argument or result), a
  submission to the queue, the delay, a line of the log.
\<close>

datatype method_call =
    Set_amount_of_pages int
  | Finished_page int
  | Is_finished bool
  | Get_finished_pages number_set
  | Delete

datatype event =
    Call string method_call
  | Send QueueMessage
  | SendBatch "QueueMessage list"
  | Sleep real
  | Log_page string string "int option" "int option"
  | Log_end string string int

text \<open>
  \<open>objects\<close> maps the name given to \<open>idFromName\<close> to the storage of that object.
  \<open>Math.random()\<close> and \<open>Date.now()\<close> read the next value of a source that the
  world carries: \<open>random_src k\<close> is what the \<open>k\<close>-th call of \<open>Math.random()\<close> returns,
  \<open>now_src k\<close> what the \<open>k\<close>-th call of \<open>Date.now()\<close> returns.

  Three numbers describe what the source does not decide for an amount above the default
  of \<open>100\<close>. The engine stores at most \<open>array_capacity\<close> elements in an array that
  \<open>Array.from\<close> builds; asked for more, it throws part-way, after \<open>refused_after\<close> calls of
  the callback. The queue takes at most \<open>batch_limit\<close> messages in one \<open>sendBatch\<close>.
\<close>

record world =
  objects :: "string \<Rightarrow> storage"
  trace :: "event list"
  random_src :: "nat \<Rightarrow> real"
  random_calls :: nat
  now_src :: "nat \<Rightarrow> int"
  now_calls :: nat
  array_capacity :: int
  refused_after :: int
  batch_limit :: int

definition emit :: "event \<Rightarrow> world \<Rightarrow> world" where
  "emit e w = w\<lparr>trace := trace w @ [e]\<rparr>"

definition Math_random :: "world \<Rightarrow> real \<times> world" where
  "Math_random w = (random_src w (random_calls w), w\<lparr>random_calls := Suc (random_calls w)\<rparr>)"

definition Date_now :: "world \<Rightarrow> int \<times> world" where
  "Date_now w = (now_src w (now_calls w), w\<lparr>now_calls := Suc (now_calls w)\<rparr>)"

text \<open>The calls through a stub \<open>env.MY_DURABLE_OBJECT.get(idFromName(document_id))\<close>.\<close>

definition stub_set_amount_of_pages :: "string \<Rightarrow> int \<Rightarrow> world \<Rightarrow> world" where
  "stub_set_amount_of_pages d amount w =
     emit (Call d (Set_amount_of_pages amount))
       (w\<lparr>objects := (objects w)(d := set_amount_of_pages amount (objects w d))\<rparr>)"

definition stub_finished_page :: "string \<Rightarrow> int \<Rightarrow> world \<Rightarrow> world" where
  "stub_finished_page d page_num w =
     emit (Call d (Finished_page page_num))
       (w\<lparr>objects := (objects w)(d := finished_page page_num (objects w d))\<rparr>)"

definition stub_is_finished :: "string \<Rightarrow> world \<Rightarrow> bool \<times> world" where
  "stub_is_finished d w =
     (let b = is_finished (objects w d) in (b, emit (Call d (Is_finished b)) w))"

definition stub_get_finished_pages :: "string \<Rightarrow> world \<Rightarrow> number_set \<times> world" where
  "stub_get_finished_pages d w =
     (let s = get_finished_pages (objects w d) in (s, emit (Call d (Get_finished_pages s)) w))"

definition stub_delete :: "string \<Rightarrow> world \<Rightarrow> world" where
  "stub_delete d w =
     emit (Call d Delete) (w\<lparr>objects := (objects w)(d := delete (objects w d))\<rparr>)"

text \<open>\<open>env.MY_QUEUE.send\<close>.\<close>

definition queue_send :: "QueueMessage \<Rightarrow> world \<Rightarrow> world" where
  "queue_send m w = emit (Send m) w"

subsection \<open>The queue consumer\<close>

text \<open>The message of line 128: no \<open>page\<close>, no \<open>total_pages\<close>.\<close>

definition end_message :: "QueueMessage \<Rightarrow> QueueMessage" where
  "end_message m =
     \<lparr>type = End, start_time = start_time m, document_id = document_id m,
      page = None, total_pages = None\<rparr>"

text \<open>Lines 107 and 108: the delay, with \<open>Math.random()\<close> called only when randomising.\<close>

definition delay :: "Env \<Rightarrow> world \<Rightarrow> world" where
  "delay env w =
     (if RANDOMIZE_TO_MAX env
      then (let (r, w1) = Math_random w in emit (Sleep (r * DELAY_PER_QUEUE_EXECUTION env)) w1)
      else emit (Sleep (DELAY_PER_QUEUE_EXECUTION env)) w)"

text \<open>Lines 122 to 130, entered when \<open>message.body.page\<close> is truthy.\<close>

definition record_page :: "QueueMessage \<Rightarrow> int \<Rightarrow> world \<Rightarrow> world" where
  "record_page m page_num w =
     (let w1 = stub_finished_page (document_id m) page_num w;
          (fin, w2) = stub_is_finished (document_id m) w1
      in if fin then stub_delete (document_id m) (queue_send (end_message m) w2) else w2)"

text \<open>
  One iteration of the loop of \<open>queue\<close> (lines 100 to 132). \<open>exec\<close> is the string
  \<open>execution_random_id\<close> of line 97. A number is truthy when it is not \<open>0\<close>.
\<close>

definition handle_message :: "Env \<Rightarrow> string \<Rightarrow> QueueMessage \<Rightarrow> world \<Rightarrow> world" where
  "handle_message env exec m w =
     (if type m = End then
        (let (t, w1) = Date_now w
         in emit (Log_end exec (document_id m) (t - start_time m)) w1)
      else if type m = Page then
        (let w1 = delay env w;
             w2 = emit (Log_page exec (document_id m) (page m) (total_pages m)) w1
         in case page m of
              None \<Rightarrow> w2
            | Some page_num \<Rightarrow> if page_num \<noteq> 0 then record_page m page_num w2 else w2)
      else w)"

fun queue :: "Env \<Rightarrow> string \<Rightarrow> QueueMessage list \<Rightarrow> world \<Rightarrow> world" where
  "queue env exec [] w = w"
| "queue env exec (m # ms) w = queue env exec ms (handle_message env exec m w)"

subsection \<open>The handler of \<open>/send_to_queue\<close>\<close>

text \<open>
  Two built-ins of the language are needed: \<open>parseInt\<close> with no radix argument, and the
  decimal \<open>toString\<close> of an integer. \<open>parseInt\<close> skips leading white space, reads an
  optional sign, switches to radix 16 after a prefix \<open>0x\<close> or \<open>0X\<close>, and converts the longest
  prefix of digits of the radix; with no digit there the result is \<open>NaN\<close> (\<open>None\<close>).
  A \<open>char\<close> is a code unit below 256: the white space of the language in this range is
  the six ASCII characters and the no-break space \<open>U+00A0\<close>.
\<close>

fun lookup_digit :: "string \<Rightarrow> nat \<Rightarrow> char \<Rightarrow> nat option" where
  "lookup_digit [] k c = None"
| "lookup_digit (d # ds) k c = (if c = d then Some k else lookup_digit ds (Suc k) c)"

definition digit_value :: "char \<Rightarrow> nat option" where
  "digit_value c =
     (case lookup_digit ''0123456789abcdefghijklmnopqrstuvwxyz'' 0 c of
        Some v \<Rightarrow> Some v
      | None \<Rightarrow> lookup_digit ''ABCDEFGHIJKLMNOPQRSTUVWXYZ'' 10 c)"

fun digit_prefix :: "nat \<Rightarrow> string \<Rightarrow> nat list" where
  "digit_prefix R [] = []"
| "digit_prefix R (c # cs) =
     (case digit_value c of
        None \<Rightarrow> []
      | Some v \<Rightarrow> if v < R then v # digit_prefix R cs else [])"

definition digits_number :: "nat \<Rightarrow> nat list \<Rightarrow> nat" where
  "digits_number R ds = foldl (\<lambda>acc v. acc * R + v) 0 ds"

definition is_white_space :: "char \<Rightarrow> bool" where
  "is_white_space c \<longleftrightarrow>
     c \<in> set [CHR 0x09, CHR 0x0A, CHR 0x0B, CHR 0x0C, CHR 0x0D, CHR 0x20, CHR 0xA0]"

definition parseInt :: "string \<Rightarrow> int option" where
  "parseInt str =
     (let s1 = dropWhile is_white_space str;
          (sign, s2) = (case s1 of
                          c # cs \<Rightarrow> if c = CHR ''-'' then (- 1, cs)
                                    else if c = CHR ''+'' then (1, cs) else (1, s1)
                        | [] \<Rightarrow> (1, s1));
          (R, s3) = (case s2 of
                       c # x # cs \<Rightarrow> if c = CHR ''0'' \<and> (x = CHR ''x'' \<or> x = CHR ''X'')
                                        then (16, cs) else (10, s2)
                     | _ \<Rightarrow> (10, s2));
          ds = digit_prefix R s3
      in if ds = [] then None else Some (sign * int (digits_number R ds)))"

fun nat_toString :: "nat \<Rightarrow> string" where
  "nat_toString n =
     (if n < 10 then [''0123456789'' ! n]
      else nat_toString (n div 10) @ [''0123456789'' ! (n mod 10)])"

declare nat_toString.simps [simp del]

definition toString :: "int \<Rightarrow> string" where
  "toString n = (if n < 0 then CHR ''-'' # nat_toString (nat (- n)) else nat_toString (nat n))"

text \<open>
  Line 55: \<open>parseInt(c.req.query('amount') || defaultAmount.toString()) || defaultAmount\<close>.
  The query parameter is \<open>undefined\<close> (\<open>None\<close>) or a string; the empty string, \<open>NaN\<close> and \<open>0\<close>
  are falsy.
\<close>

definition defaultAmount :: int where
  "defaultAmount = 100"

definition requested_amount :: "string option \<Rightarrow> int" where
  "requested_amount q =
     (case parseInt (case q of
                       None \<Rightarrow> toString defaultAmount
                     | Some s \<Rightarrow> if s = [] then toString defaultAmount else s) of
        None \<Rightarrow> defaultAmount
      | Some a \<Rightarrow> if a = 0 then defaultAmount else a)"

text \<open>
  Lines 63 to 69: \<open>Array.from({ length: amount }, f)\<close> builds the elements for the indices
  \<open>0\<close> to \<open>amount - 1\<close> in order, none when \<open>amount\<close> is negative. \<open>Date.now()\<close> is
  called once per element, so the element of index \<open>i\<close> carries the \<open>i\<close>-th next reading of
  the clock.

  The call throws a \<open>RangeError\<close> in two cases. The language refuses a length above
  \<open>2^32 - 1\<close> before any callback runs. Below that the engine refuses an array beyond its
  capacity: the loop starts, and the throw comes after \<open>refused_after\<close> callbacks. Line 77
  throws when the queue refuses the batch. Up to the default amount nothing is refused:
  \<open>100\<close> is the limit of the queue that the comment of line 53 names, and every engine
  builds an array of 100 elements.
\<close>

datatype error = RangeError | SendBatchError

definition engine_refuses :: "world \<Rightarrow> int \<Rightarrow> bool" where
  "engine_refuses w amount \<longleftrightarrow> defaultAmount < amount \<and> array_capacity w < amount"

definition queue_refuses :: "world \<Rightarrow> QueueMessage list \<Rightarrow> bool" where
  "queue_refuses w ms \<longleftrightarrow>
     defaultAmount < int (length ms) \<and> batch_limit w < int (length ms)"

text \<open>
  \<open>env.MY_QUEUE.sendBatch\<close>: the call is an event of the trace whether the queue takes the
  batch or throws.
\<close>

definition queue_sendBatch :: "QueueMessage list \<Rightarrow> world \<Rightarrow> (error + unit) \<times> world" where
  "queue_sendBatch ms w =
     (if queue_refuses w ms then Inl SendBatchError else Inr (), emit (SendBatch ms) w)"

datatype response = Text string | Json bool "int list"

definition page_messages :: "string \<Rightarrow> int \<Rightarrow> world \<Rightarrow> QueueMessage list \<times> world" where
  "page_messages doc amount w =
     (map (\<lambda>i. \<lparr>type = Page, start_time = now_src w (now_calls w + i), document_id = doc,
                page = Some (int i + 1), total_pages = Some amount\<rparr>) [0..<nat amount],
      w\<lparr>now_calls := now_calls w + nat amount\<rparr>)"

text \<open>
  \<open>doc\<close> is the string \<open>document_id\<close> that line 57 draws
  (\<open>Math.random().toString(36).substring(7)\<close>).
\<close>

definition send_to_queue :: "string option \<Rightarrow> string \<Rightarrow> world \<Rightarrow> (error + response) \<times> world" where
  "send_to_queue q doc w =
     (let amount = requested_amount q;
          w1 = stub_set_amount_of_pages doc amount w
      in if 4294967295 < amount then (Inl RangeError, w1)
         else if engine_refuses w1 amount
         then (Inl RangeError, w1\<lparr>now_calls := now_calls w1 + nat (refused_after w1)\<rparr>)
         else
           (let (messages, w2) = page_messages doc amount w1;
                (sent, w3) = queue_sendBatch messages w2
            in case sent of
                 Inl e \<Rightarrow> (Inl e, w3)
               | Inr _ \<Rightarrow>
                   (Inr (Text (''Document: '' @ doc @ ''. Sent '' @ toString amount
                               @ '' messages to the queue!'')), w3)))"

subsection \<open>The handler of \<open>/status\<close>\<close>

text \<open>\<open>c.req.query('document_id') || ''\<close>, then the two calls of lines 88 and 89.\<close>

definition status :: "string option \<Rightarrow> world \<Rightarrow> response \<times> world" where
  "status q w =
     (let doc = (case q of None \<Rightarrow> [] | Some s \<Rightarrow> s);
          (finished, w1) = stub_is_finished doc w;
          (pages, w2) = stub_get_finished_pages doc w1
      in (Json finished pages, w2))"

subsection \<open>Several consumers at once\<close>

text \<open>
  Lines 125 to 130 are four awaited calls: \<open>finished_page\<close>, \<open>is_finished\<close>, \<open>send\<close> and
  \<open>delete\<close>. Each call is one step; when several invocations of the consumer run at the
  same time, a schedule says whose call comes next. An invocation is at one of the four
  calls or has left the block.
\<close>

datatype location = At_finished_page | At_is_finished | At_send | At_delete | Returned

record invocation =
  body :: QueueMessage
  page_num :: int
  loc :: location

definition start :: "QueueMessage \<Rightarrow> int \<Rightarrow> invocation" where
  "start m p = \<lparr>body = m, page_num = p, loc = At_finished_page\<rparr>"

definition advance :: "invocation \<Rightarrow> world \<Rightarrow> invocation \<times> world" where
  "advance v w =
     (case loc v of
        At_finished_page \<Rightarrow>
          (v\<lparr>loc := At_is_finished\<rparr>, stub_finished_page (document_id (body v)) (page_num v) w)
      | At_is_finished \<Rightarrow>
          (let (fin, w1) = stub_is_finished (document_id (body v)) w
           in (v\<lparr>loc := (if fin then At_send else Returned)\<rparr>, w1))
      | At_send \<Rightarrow> (v\<lparr>loc := At_delete\<rparr>, queue_send (end_message (body v)) w)
      | At_delete \<Rightarrow> (v\<lparr>loc := Returned\<rparr>, stub_delete (document_id (body v)) w)
      | Returned \<Rightarrow> (v, w))"

definition sched_step :: "nat \<Rightarrow> invocation list \<times> world \<Rightarrow> invocation list \<times> world" where
  "sched_step i c =
     (let (vs, w) = c
      in if i < length vs
         then (let (v, w1) = advance (vs ! i) w in (vs[i := v], w1))
         else c)"

fun run_schedule :: "nat list \<Rightarrow> invocation list \<times> world \<Rightarrow> invocation list \<times> world" where
  "run_schedule [] c = c"
| "run_schedule (i # sched) c = run_schedule sched (sched_step i c)"

section \<open>Vocabulary of the statements\<close>

text \<open>
  The consumer is invoked once per delivered batch, each time with its own
  \<open>execution_random_id\<close>; a delivery sequence is a list of such batches, handled one after
  another.
\<close>

fun consume :: "Env \<Rightarrow> (string \<times> QueueMessage list) list \<Rightarrow> world \<Rightarrow> world" where
  "consume env [] w = w"
| "consume env ((exec, batch) # bs) w = consume env bs (queue env exec batch w)"

definition delivered :: "(string \<times> QueueMessage list) list \<Rightarrow> QueueMessage list" where
  "delivered bs = concat (map snd bs)"

text \<open>Counting events of the trace.\<close>

definition count_events :: "(event \<Rightarrow> bool) \<Rightarrow> world \<Rightarrow> nat" where
  "count_events P w = length (filter P (trace w))"

definition is_end_send :: "string \<Rightarrow> event \<Rightarrow> bool" where
  "is_end_send d e = (case e of Send m \<Rightarrow> type m = End \<and> document_id m = d | _ \<Rightarrow> False)"

definition true_observations :: "string \<Rightarrow> world \<Rightarrow> nat" where
  "true_observations d w = count_events (\<lambda>e. e = Call d (Is_finished True)) w"

definition ends_sent :: "string \<Rightarrow> world \<Rightarrow> nat" where
  "ends_sent d w = count_events (is_end_send d) w"

definition deletions :: "string \<Rightarrow> world \<Rightarrow> nat" where
  "deletions d w = count_events (\<lambda>e. e = Call d Delete) w"

text \<open>
  What one iteration of the consumer does to the object of document \<open>d\<close>:
  \<open>recorded_page d m\<close> is the page that the message makes it record there, if any;
  \<open>completes p st\<close> says that the check after recording \<open>p\<close> succeeds; \<open>absorb p st\<close> is the
  storage the iteration leaves.
\<close>

definition recorded_page :: "string \<Rightarrow> QueueMessage \<Rightarrow> int option" where
  "recorded_page d m =
     (if type m = Page \<and> document_id m = d
      then (case page m of None \<Rightarrow> None | Some p \<Rightarrow> if p \<noteq> 0 then Some p else None)
      else None)"

definition completes :: "int \<Rightarrow> storage \<Rightarrow> bool" where
  "completes p st = is_finished (finished_page p st)"

definition absorb :: "int \<Rightarrow> storage \<Rightarrow> storage" where
  "absorb p st = (if completes p st then delete (finished_page p st) else finished_page p st)"

fun absorb_all :: "int list \<Rightarrow> storage \<Rightarrow> storage \<times> nat" where
  "absorb_all [] st = (st, 0)"
| "absorb_all (p # ps) st =
     (let (st', k) = absorb_all ps (absorb p st)
      in (st', (if completes p st then 1 else 0) + k))"

text \<open>A job of \<open>N\<close> pages that has not completed yet.\<close>

definition pending :: "int \<Rightarrow> storage \<Rightarrow> bool" where
  "pending N st \<longleftrightarrow>
     amount_of_pages st = Some N \<and> distinct (stored_finished_pages st) \<and>
     set_size (stored_finished_pages st) < N"

text \<open>
  The channel holds what was submitted to the queue so far. It delivers at least once
  and in any order: a delivery sequence comes from the channel when each message is in
  the channel at the moment the consumer handles it. The messages of a batch that the
  queue refused are counted too, which only adds delivery sequences.
\<close>

definition submitted :: "world \<Rightarrow> QueueMessage list" where
  "submitted w =
     concat (map (\<lambda>e. case e of Send m \<Rightarrow> [m] | SendBatch ms \<Rightarrow> ms | _ \<Rightarrow> []) (trace w))"

fun queue_from_channel :: "Env \<Rightarrow> string \<Rightarrow> QueueMessage list \<Rightarrow> world \<Rightarrow> bool" where
  "queue_from_channel env exec [] w = True"
| "queue_from_channel env exec (m # ms) w =
     (m \<in> set (submitted w) \<and> queue_from_channel env exec ms (handle_message env exec m w))"

fun consume_from_channel :: "Env \<Rightarrow> (string \<times> QueueMessage list) list \<Rightarrow> world \<Rightarrow> bool" where
  "consume_from_channel env [] w = True"
| "consume_from_channel env ((exec, batch) # bs) w =
     (queue_from_channel env exec batch w \<and> consume_from_channel env bs (queue env exec batch w))"

text \<open>The pages that a delivery sequence makes the consumer record for document \<open>d\<close>, in order.\<close>

definition pages_for :: "string \<Rightarrow> (string \<times> QueueMessage list) list \<Rightarrow> int list" where
  "pages_for d bs = List.map_filter (recorded_page d) (delivered bs)"

text \<open>The sizes of the batches submitted with \<open>sendBatch\<close>, in order.\<close>

definition batch_sizes :: "world \<Rightarrow> nat list" where
  "batch_sizes w =
     List.map_filter (\<lambda>e. case e of SendBatch ms \<Rightarrow> Some (length ms) | _ \<Rightarrow> None) (trace w)"

text \<open>The messages that \<open>/send_to_queue\<close> builds for an amount, from the world it is called in.\<close>

definition built_messages :: "string \<Rightarrow> int \<Rightarrow> world \<Rightarrow> QueueMessage list" where
  "built_messages doc amount w = fst (page_messages doc amount (stub_set_amount_of_pages doc amount w))"

text \<open>
  Every page message for \<open>d\<close> in the channel carries a page from \<open>1\<close> to \<open>N\<close>, and so does
  every element of the stored set, which has no duplicates.
\<close>

definition in_range :: "int \<Rightarrow> string \<Rightarrow> world \<Rightarrow> bool" where
  "in_range N d w \<longleftrightarrow>
     (\<forall>m\<in>set (submitted w). type m = Page \<and> document_id m = d \<longrightarrow> (\<exists>p\<in>{1..N}. page m = Some p)) \<and>
     distinct (stored_finished_pages (objects w d)) \<and>
     set (stored_finished_pages (objects w d)) \<subseteq> {1..N}"

text \<open>
  Schedules. \<open>serial order\<close> runs the invocations one after another in the given order,
  each through its four calls. \<open>all_returned\<close> says that every invocation has left the
  block.
\<close>

definition serial :: "nat list \<Rightarrow> nat list" where
  "serial order = concat (map (\<lambda>i. [i, i, i, i]) order)"

definition all_returned :: "invocation list \<Rightarrow> bool" where
  "all_returned vs = list_all (\<lambda>v. loc v = Returned) vs"

text \<open>
  Invocations of one job: all for document \<open>d\<close>, each with its own page. As long as no
  check has returned \<open>true\<close>, the stored set holds the pages of the invocations that are
  past \<open>finished_page\<close>, and some invocation has not returned yet.
\<close>

definition same_job :: "string \<Rightarrow> invocation list \<Rightarrow> bool" where
  "same_job d vs \<longleftrightarrow> (\<forall>v\<in>set vs. document_id (body v) = d) \<and> distinct (map page_num vs)"

definition unobserved :: "string \<Rightarrow> invocation list \<Rightarrow> world \<Rightarrow> bool" where
  "unobserved d vs w \<longleftrightarrow>
     amount_of_pages (objects w d) = Some (int (length vs)) \<and>
     distinct (stored_finished_pages (objects w d)) \<and>
     set (stored_finished_pages (objects w d)) = page_num ` {v \<in> set vs. loc v \<noteq> At_finished_page} \<and>
     (\<forall>v\<in>set vs. loc v = At_finished_page \<or> loc v = At_is_finished \<or> loc v = Returned) \<and>
     (\<exists>v\<in>set vs. loc v = At_finished_page \<or> loc v = At_is_finished)"

subsection \<open>Concrete inputs\<close>

definition example_world :: world where
  "example_world =
     \<lparr>objects = (\<lambda>_. empty_storage), trace = [], random_src = (\<lambda>k. 1 / 2), random_calls = 0,
      now_src = (\<lambda>k. 1000 + int k), now_calls = 0,
      array_capacity = 22369621, refused_after = 22369622, batch_limit = 100\<rparr>"

definition example_env :: Env where
  "example_env = \<lparr>DELAY_PER_QUEUE_EXECUTION = 10, RANDOMIZE_TO_MAX = True\<rparr>"

definition page_message :: "string \<Rightarrow> int \<Rightarrow> int \<Rightarrow> QueueMessage" where
  "page_message d n p =
     \<lparr>type = Page, start_time = 1000, document_id = d, page = Some p, total_pages = Some n\<rparr>"

definition two_invocations :: "invocation list" where
  "two_invocations = [start (page_message ''doc'' 2 1) 1, start (page_message ''doc'' 2 2) 2]"

text \<open>Two invocations for the same page of a job of one page: the message was delivered twice.\<close>

definition duplicate_invocations :: "invocation list" where
  "duplicate_invocations = [start (page_message ''doc'' 1 1) 1, start (page_message ''doc'' 1 1) 1]"

text \<open>
  The two messages that \<open>/send_to_queue\<close> builds for \<open>amount=2\<close> in \<open>example_world\<close>, and a
  delivery sequence made of them and of the \<open>end\<close> message that the consumer sends.
\<close>

definition dispatched_page :: "int \<Rightarrow> QueueMessage" where
  "dispatched_page p =
     \<lparr>type = Page, start_time = 999 + p, document_id = ''doc'', page = Some p, total_pages = Some 2\<rparr>"

definition example_deliveries :: "(string \<times> QueueMessage list) list" where
  "example_deliveries =
     [(''x1'', [dispatched_page 2, dispatched_page 1]),
      (''x2'', [end_message (dispatched_page 1), dispatched_page 2])]"

section \<open>Facts about the primitives\<close>

lemma emit_simps [simp]:
  "objects (emit e w) = objects w" "trace (emit e w) = trace w @ [e]"
  by (simp_all add: emit_def)

lemma count_events_emit [simp]:
  "count_events P (emit e w) = count_events P w + (if P e then 1 else 0)"
  by (simp add: count_events_def)

lemma count_events_update [simp]:
  "count_events P (w\<lparr>objects := f\<rparr>) = count_events P w"
  "count_events P (w\<lparr>now_calls := k\<rparr>) = count_events P w"
  "count_events P (w\<lparr>random_calls := k\<rparr>) = count_events P w"
  by (simp_all add: count_events_def)

lemma delay_objects [simp]: "objects (delay env w) = objects w"
  by (simp add: delay_def Math_random_def split: prod.splits)

lemma delay_count:
  "(\<And>r. \<not> P (Sleep r)) \<Longrightarrow> count_events P (delay env w) = count_events P w"
  by (simp add: delay_def Math_random_def split: prod.splits)

lemma is_end_send_simps [simp]:
  "is_end_send d (Send m) \<longleftrightarrow> type m = End \<and> document_id m = d"
  "\<not> is_end_send d (Call d' c)"
  "\<not> is_end_send d (SendBatch ms)"
  "\<not> is_end_send d (Sleep r)"
  "\<not> is_end_send d (Log_page a b c1 c2)"
  "\<not> is_end_send d (Log_end a b t)"
  by (simp_all add: is_end_send_def)

lemma handle_message_objects:
  "objects (handle_message env exec m w) d =
     (case recorded_page d m of None \<Rightarrow> objects w d | Some p \<Rightarrow> absorb p (objects w d))"
  by (cases "type m")
     (auto simp: handle_message_def recorded_page_def absorb_def completes_def record_page_def
        Date_now_def stub_finished_page_def stub_is_finished_def stub_delete_def queue_send_def
        Let_def split: option.splits prod.splits)

lemma handle_message_count:
  assumes "\<And>r. \<not> P (Sleep r)" "\<And>a b c1 c2. \<not> P (Log_page a b c1 c2)" "\<And>a b t. \<not> P (Log_end a b t)"
    and "\<And>d' p. \<not> P (Call d' (Finished_page p))"
    and "\<And>d'. \<not> P (Call d' (Is_finished False))"
    and "\<And>d'. P (Call d' (Is_finished True)) \<longleftrightarrow> d' = d \<and> a1"
    and "\<And>m. P (Send (end_message m)) \<longleftrightarrow> document_id m = d \<and> a2"
    and "\<And>d'. P (Call d' Delete) \<longleftrightarrow> d' = d \<and> a3"
  shows "count_events P (handle_message env exec m w) =
     count_events P w +
     (case recorded_page d m of None \<Rightarrow> 0
      | Some p \<Rightarrow> if completes p (objects w d)
                  then (if a1 then 1 else 0) + (if a2 then 1 else 0) + (if a3 then 1 else 0) else 0)"
  using assms
  by (cases "type m")
     (auto simp: handle_message_def recorded_page_def completes_def record_page_def Date_now_def
        delay_count stub_finished_page_def stub_is_finished_def stub_delete_def queue_send_def
        Let_def split: option.splits prod.splits)

lemma handle_message_true_observations:
  "true_observations d (handle_message env exec m w) =
     true_observations d w +
     (case recorded_page d m of None \<Rightarrow> 0 | Some p \<Rightarrow> if completes p (objects w d) then 1 else 0)"
  unfolding true_observations_def
  by (subst handle_message_count [where d = d and ?a1.0 = True and ?a2.0 = False and ?a3.0 = False])
     (auto split: option.splits)

lemma handle_message_ends_sent:
  "ends_sent d (handle_message env exec m w) =
     ends_sent d w +
     (case recorded_page d m of None \<Rightarrow> 0 | Some p \<Rightarrow> if completes p (objects w d) then 1 else 0)"
  unfolding ends_sent_def
  by (subst handle_message_count [where d = d and ?a1.0 = False and ?a2.0 = True and ?a3.0 = False])
     (auto simp: end_message_def split: option.splits)

lemma handle_message_deletions:
  "deletions d (handle_message env exec m w) =
     deletions d w +
     (case recorded_page d m of None \<Rightarrow> 0 | Some p \<Rightarrow> if completes p (objects w d) then 1 else 0)"
  unfolding deletions_def
  by (subst handle_message_count [where d = d and ?a1.0 = False and ?a2.0 = False and ?a3.0 = True])
     (auto split: option.splits)

text \<open>The consumer seen from one document: its storage and its counts after a batch.\<close>

lemma queue_projection:
  "objects (queue env exec ms w) d = fst (absorb_all (List.map_filter (recorded_page d) ms) (objects w d)) \<and>
   true_observations d (queue env exec ms w) = true_observations d w + snd (absorb_all (List.map_filter (recorded_page d) ms) (objects w d)) \<and>
   ends_sent d (queue env exec ms w) = ends_sent d w + snd (absorb_all (List.map_filter (recorded_page d) ms) (objects w d)) \<and>
   deletions d (queue env exec ms w) = deletions d w + snd (absorb_all (List.map_filter (recorded_page d) ms) (objects w d))"
proof (induction ms arbitrary: w)
  case Nil
  then show ?case by (simp add: List.map_filter_simps)
next
  case (Cons m ms)
  show ?case
  proof (cases "recorded_page d m")
    case None
    then show ?thesis
      using Cons.IH [of "handle_message env exec m w"]
      by (simp add: List.map_filter_simps handle_message_objects handle_message_true_observations
          handle_message_ends_sent handle_message_deletions)
  next
    case (Some p)
    then show ?thesis
      using Cons.IH [of "handle_message env exec m w"]
      by (simp add: List.map_filter_simps handle_message_objects handle_message_true_observations
          handle_message_ends_sent handle_message_deletions split: prod.splits)
  qed
qed

lemma absorb_all_append:
  "absorb_all (ps @ qs) st =
     (let (st1, k1) = absorb_all ps st; (st2, k2) = absorb_all qs st1 in (st2, k1 + k2))"
  by (induction ps arbitrary: st) (auto split: prod.splits)

lemma map_filter_append: "List.map_filter f (xs @ ys) = List.map_filter f xs @ List.map_filter f ys"
  by (simp add: List.map_filter_def)

lemma consume_projection:
  "objects (consume env bs w) d = fst (absorb_all (pages_for d bs) (objects w d)) \<and>
   true_observations d (consume env bs w) = true_observations d w + snd (absorb_all (pages_for d bs) (objects w d)) \<and>
   ends_sent d (consume env bs w) = ends_sent d w + snd (absorb_all (pages_for d bs) (objects w d)) \<and>
   deletions d (consume env bs w) = deletions d w + snd (absorb_all (pages_for d bs) (objects w d))"
proof (induction bs arbitrary: w)
  case Nil
  then show ?case by (simp add: pages_for_def delivered_def List.map_filter_simps)
next
  case (Cons b bs)
  obtain exec batch where b: "b = (exec, batch)" by (cases b)
  have split: "pages_for d ((exec, batch) # bs) = List.map_filter (recorded_page d) batch @ pages_for d bs"
    by (simp add: pages_for_def delivered_def map_filter_append)
  show ?case
    using Cons.IH [of "queue env exec batch w"] queue_projection [of env exec batch w d]
    by (simp add: b split absorb_all_append split: prod.splits)
qed

section \<open>Facts about the storage of one job\<close>

lemma set_add_props [simp]:
  "set (set_add p s) = insert p (set s)"
  "distinct (set_add p s) = distinct s"
  "set_add p s \<noteq> []"
  by (auto simp: set_add_def)

lemma length_set_add: "length (set_add p s) = (if p \<in> set s then length s else Suc (length s))"
  by (simp add: set_add_def)

lemma finished_page_fields [simp]:
  "amount_of_pages (finished_page p st) = amount_of_pages st"
  "stored_finished_pages (finished_page p st) = set_add p (stored_finished_pages st)"
  by (simp_all add: finished_page_def stored_finished_pages_def)

lemma closed_never_completes:
  "amount_of_pages st = None \<Longrightarrow> \<not> completes p st"
  by (simp add: completes_def is_finished_def stored_amount_of_pages_def set_size_def)

lemma closed_absorb:
  "amount_of_pages st = None \<Longrightarrow> amount_of_pages (absorb p st) = None"
  by (simp add: absorb_def closed_never_completes)

lemma closed_absorb_all:
  "amount_of_pages st = None \<Longrightarrow>
     snd (absorb_all ps st) = 0 \<and> amount_of_pages (fst (absorb_all ps st)) = None"
proof (induction ps arbitrary: st)
  case Nil
  then show ?case by simp
next
  case (Cons p ps)
  from Cons.IH [OF closed_absorb [OF Cons.prems, of p]] Cons.prems
  show ?case by (simp add: closed_never_completes case_prod_beta)
qed

lemma pending_completes_iff:
  "pending N st \<Longrightarrow> completes p st \<longleftrightarrow> int (length (set_add p (stored_finished_pages st))) = N"
  by (auto simp: pending_def completes_def is_finished_def stored_amount_of_pages_def set_size_def)

lemma pending_absorb:
  assumes "pending N st" "\<not> completes p st"
  shows "pending N (absorb p st)" "stored_finished_pages (absorb p st) = set_add p (stored_finished_pages st)"
  using assms pending_completes_iff [OF assms(1), of p]
  by (auto simp: absorb_def pending_def set_size_def length_set_add split: if_splits)

lemma completed_absorb:
  "completes p st \<Longrightarrow> absorb p st = empty_storage"
  by (simp add: absorb_def delete_def)

lemma pending_absorb_all:
  assumes "pending N st"
  shows "(N \<le> int (card (set (stored_finished_pages st) \<union> set ps)) \<longrightarrow>
            snd (absorb_all ps st) = 1) \<and>
         (int (card (set (stored_finished_pages st) \<union> set ps)) < N \<longrightarrow>
            snd (absorb_all ps st) = 0 \<and> pending N (fst (absorb_all ps st)) \<and>
            set (stored_finished_pages (fst (absorb_all ps st))) = set (stored_finished_pages st) \<union> set ps)"
  using assms
proof (induction ps arbitrary: st)
  case Nil
  then show ?case
    by (auto simp: pending_def set_size_def distinct_card)
next
  case (Cons p ps)
  let ?S = "set (stored_finished_pages st) \<union> set (p # ps)"
  show ?case
  proof (cases "completes p st")
    case True
    have len: "int (length (set_add p (stored_finished_pages st))) = N"
      using pending_completes_iff [OF Cons.prems] True by simp
    have "distinct (set_add p (stored_finished_pages st))"
      using Cons.prems by (simp add: pending_def)
    then have "card (set (set_add p (stored_finished_pages st))) = length (set_add p (stored_finished_pages st))"
      by (rule distinct_card)
    moreover have "card (set (set_add p (stored_finished_pages st))) \<le> card ?S"
      by (rule card_mono) auto
    ultimately have big: "N \<le> int (card ?S)" using len by linarith
    have "amount_of_pages (absorb p st) = None"
      using True by (simp add: completed_absorb empty_storage_def)
    from closed_absorb_all [OF this, of ps] True big
    show ?thesis by (simp add: case_prod_beta)
  next
    case False
    note pa = pending_absorb [OF Cons.prems False]
    have eq: "set (stored_finished_pages (absorb p st)) \<union> set ps = ?S"
      by (simp add: pa(2))
    from Cons.IH [OF pa(1)] False show ?thesis
      unfolding eq by (simp add: case_prod_beta)
  qed
qed

lemma set_map_filter: "set (List.map_filter f xs) = {y. \<exists>x\<in>set xs. f x = Some y}"
  by (induction xs) (auto simp: List.map_filter_simps split: option.splits)

lemma trace_delay:
  "trace (delay env w) =
     trace w @ [Sleep (if RANDOMIZE_TO_MAX env
                       then random_src w (random_calls w) * DELAY_PER_QUEUE_EXECUTION env
                       else DELAY_PER_QUEUE_EXECUTION env)]"
  by (simp add: delay_def Math_random_def)

lemma stored_amount_Some [simp]: "amount_of_pages st = Some N \<Longrightarrow> stored_amount_of_pages st = N"
  by (simp add: stored_amount_of_pages_def)

lemma is_finished_iff:
  "is_finished st \<longleftrightarrow> set_size (stored_finished_pages st) = stored_amount_of_pages st"
  by (simp add: is_finished_def)

lemma recorded_pageI:
  "type m = Page \<Longrightarrow> document_id m = d \<Longrightarrow> page m = Some p \<Longrightarrow> p \<noteq> 0 \<Longrightarrow> recorded_page d m = Some p"
  by (simp add: recorded_page_def)

lemma in_pages_for:
  "m \<in> set (delivered bs) \<Longrightarrow> recorded_page d m = Some p \<Longrightarrow> p \<in> set (pages_for d bs)"
  unfolding pages_for_def set_map_filter by blast

lemma fresh_absorb_all:
  assumes "amount_of_pages st = Some N" "distinct (stored_finished_pages st)"
    and "stored_finished_pages st = [] \<or> set_size (stored_finished_pages st) \<noteq> N"
  shows "amount_of_pages (fst (absorb_all ps st)) = None \<or>
         (amount_of_pages (fst (absorb_all ps st)) = Some N \<and>
          set (stored_finished_pages (fst (absorb_all ps st))) = set (stored_finished_pages st) \<union> set ps \<and>
          (stored_finished_pages (fst (absorb_all ps st)) = [] \<or>
           set_size (stored_finished_pages (fst (absorb_all ps st))) \<noteq> N))"
  using assms
proof (induction ps arbitrary: st)
  case Nil
  then show ?case by simp
next
  case (Cons p ps)
  show ?case
  proof (cases "completes p st")
    case True
    then have "amount_of_pages (absorb p st) = None"
      by (simp add: completed_absorb empty_storage_def)
    from closed_absorb_all [OF this, of ps] show ?thesis
      by (simp add: case_prod_beta)
  next
    case False
    then have abs: "absorb p st = finished_page p st" by (simp add: absorb_def)
    have "set_size (stored_finished_pages (finished_page p st)) \<noteq> N"
      using False Cons.prems(1) by (simp add: completes_def is_finished_iff)
    with Cons.IH [of "finished_page p st"] Cons.prems(1,2) show ?thesis
      by (simp add: abs case_prod_beta)
  qed
qed

lemma duplicate_never_completes:
  assumes "st = set_amount_of_pages N empty_storage" "p \<in> set ps"
  shows "\<not> completes p (fst (absorb_all ps st))"
proof -
  let ?st = "fst (absorb_all ps st)"
  have init: "amount_of_pages st = Some N" "stored_finished_pages st = []"
    using assms(1) by (simp_all add: set_amount_of_pages_def empty_storage_def stored_finished_pages_def)
  from fresh_absorb_all [of st N ps] init
  consider "amount_of_pages ?st = None"
    | "amount_of_pages ?st = Some N" "set (stored_finished_pages ?st) = set ps"
      "stored_finished_pages ?st = [] \<or> set_size (stored_finished_pages ?st) \<noteq> N"
    by auto
  then show ?thesis
  proof cases
    case 1
    then show ?thesis by (rule closed_never_completes)
  next
    case 2
    with assms(2) have "p \<in> set (stored_finished_pages ?st)" by simp
    then have "set_add p (stored_finished_pages ?st) = stored_finished_pages ?st"
      "stored_finished_pages ?st \<noteq> []"
      by (auto simp: set_add_def)
    with 2 show ?thesis by (simp add: completes_def is_finished_iff)
  qed
qed

lemma example_job:
  "objects (stub_set_amount_of_pages ''doc'' n example_world) ''doc'' = set_amount_of_pages n empty_storage"
  by (simp add: stub_set_amount_of_pages_def example_world_def)

section \<open>Facts about \<open>/send_to_queue\<close>\<close>

lemma map_index_upto: "map (\<lambda>i. int i + 1) [0..<n] = [1..int n]"
proof (induction n)
  case 0
  then show ?case by simp
next
  case (Suc n)
  have "[1..int (Suc n)] = [1..int n] @ [int n + 1]"
    using upto_rec2 [of 1 "int (Suc n)"] by simp
  with Suc show ?case by simp
qed

lemma refusal_simps [simp]:
  "engine_refuses (stub_set_amount_of_pages d a w) = engine_refuses w"
  "queue_refuses (snd (page_messages d a w)) = queue_refuses w"
  "queue_refuses (stub_set_amount_of_pages d a w) = queue_refuses w"
  by (simp_all add: engine_refuses_def queue_refuses_def stub_set_amount_of_pages_def
      page_messages_def emit_def fun_eq_iff)

lemma default_not_refused:
  "amount \<le> 100 \<Longrightarrow> \<not> engine_refuses w amount"
  "length ms \<le> 100 \<Longrightarrow> \<not> queue_refuses w ms"
  by (simp_all add: engine_refuses_def queue_refuses_def defaultAmount_def)

lemma send_to_queue_refused:
  "4294967295 < requested_amount q \<Longrightarrow>
     send_to_queue q doc w =
       (Inl RangeError, stub_set_amount_of_pages doc (requested_amount q) w)"
  "requested_amount q \<le> 4294967295 \<Longrightarrow> engine_refuses w (requested_amount q) \<Longrightarrow>
     send_to_queue q doc w =
       (Inl RangeError,
        (stub_set_amount_of_pages doc (requested_amount q) w)
          \<lparr>now_calls := now_calls (stub_set_amount_of_pages doc (requested_amount q) w)
                          + nat (refused_after (stub_set_amount_of_pages doc (requested_amount q) w))\<rparr>)"
  by (simp_all add: send_to_queue_def Let_def)

lemma send_to_queue_trace:
  assumes "requested_amount q \<le> 4294967295" "\<not> engine_refuses w (requested_amount q)"
  shows "fst (send_to_queue q doc w) =
           (if queue_refuses w (built_messages doc (requested_amount q) w)
            then Inl SendBatchError
            else Inr (Text (''Document: '' @ doc @ ''. Sent '' @ toString (requested_amount q)
                            @ '' messages to the queue!'')))"
    and "trace (snd (send_to_queue q doc w)) =
           trace w @ [Call doc (Set_amount_of_pages (requested_amount q)),
                      SendBatch (built_messages doc (requested_amount q) w)]"
    and "objects (snd (send_to_queue q doc w)) =
           (objects w)(doc := set_amount_of_pages (requested_amount q) (objects w doc))"
  using assms
  by (simp_all add: send_to_queue_def Let_def case_prod_beta built_messages_def queue_sendBatch_def)
     (simp_all add: page_messages_def stub_set_amount_of_pages_def emit_def)

lemma built_messages_eq:
  "built_messages doc amount w =
     map (\<lambda>i. \<lparr>type = Page, start_time = now_src w (now_calls w + i), document_id = doc,
                page = Some (int i + 1), total_pages = Some amount\<rparr>) [0..<nat amount]"
  by (simp add: built_messages_def page_messages_def stub_set_amount_of_pages_def emit_def)

lemma parseInt_examples:
  "parseInt ''2'' = Some 2" "parseInt ''3'' = Some 3" "parseInt ''-5'' = Some (- 5)"
  "parseInt ''250'' = Some 250" "parseInt ''4294967296'' = Some 4294967296"
  "parseInt ''abc'' = None" "parseInt ''0'' = Some 0" "parseInt ''100'' = Some 100"
  by (simp_all add: parseInt_def digit_value_def digits_number_def is_white_space_def)

lemma toString_100: "toString 100 = ''100''"
  by (simp add: toString_def nat_toString.simps)

lemma requested_amount_examples:
  "requested_amount (Some ''2'') = 2" "requested_amount (Some ''3'') = 3"
  "requested_amount (Some ''-5'') = - 5" "requested_amount (Some ''250'') = 250"
  "requested_amount (Some ''4294967296'') = 4294967296"
  "requested_amount (Some ''abc'') = 100" "requested_amount (Some ''0'') = 100"
  "requested_amount None = 100" "requested_amount (Some '''') = 100"
  by (simp_all add: requested_amount_def parseInt_examples defaultAmount_def toString_100)

lemma requested_amount_default:
  "requested_amount None = 100"
  "requested_amount (Some []) = 100"
  "parseInt s = None \<or> parseInt s = Some 0 \<Longrightarrow> requested_amount (Some s) = 100"
  by (auto simp: requested_amount_def defaultAmount_def toString_100 parseInt_examples)

lemma batch_sizes_send_to_queue:
  "requested_amount q \<le> 4294967295 \<Longrightarrow> \<not> engine_refuses w (requested_amount q) \<Longrightarrow>
     batch_sizes (snd (send_to_queue q doc w)) = batch_sizes w @ [nat (requested_amount q)]"
  by (simp add: batch_sizes_def send_to_queue_trace(2) built_messages_eq List.map_filter_def)

lemma batch_sizes_example_world [simp]: "batch_sizes example_world = []"
  by (simp add: batch_sizes_def example_world_def List.map_filter_def)

lemma trace_example_world [simp]: "trace example_world = []"
  by (simp add: example_world_def)

lemma objects_example_world [simp]: "objects example_world = (\<lambda>_. empty_storage)"
  by (simp add: example_world_def)

lemma clock_example_world [simp]:
  "now_src example_world = (\<lambda>k. 1000 + int k)" "now_calls example_world = 0"
  by (simp_all add: example_world_def)

section \<open>Facts about the channel\<close>

lemma submitted_emit [simp]:
  "submitted (emit e w) =
     submitted w @ (case e of Send m \<Rightarrow> [m] | SendBatch ms \<Rightarrow> ms | _ \<Rightarrow> [])"
  by (simp add: submitted_def emit_def)

lemma submitted_update [simp]:
  "submitted (w\<lparr>objects := f\<rparr>) = submitted w"
  "submitted (w\<lparr>now_calls := k\<rparr>) = submitted w"
  "submitted (w\<lparr>random_calls := k\<rparr>) = submitted w"
  by (simp_all add: submitted_def)

lemma submitted_delay [simp]: "submitted (delay env w) = submitted w"
  by (simp add: delay_def Math_random_def split: prod.splits)

lemma submitted_handle_message:
  "set (submitted (handle_message env exec m w)) \<subseteq> insert (end_message m) (set (submitted w))"
  by (cases "type m")
     (auto simp: handle_message_def record_page_def Date_now_def stub_finished_page_def
        stub_is_finished_def stub_delete_def queue_send_def Let_def split: option.splits)

lemma stored_finished_pages_empty [simp]: "stored_finished_pages empty_storage = []"
  by (simp add: stored_finished_pages_def empty_storage_def)

lemma in_range_absorb:
  assumes "distinct (stored_finished_pages st)" "set (stored_finished_pages st) \<subseteq> {1..N}" "p \<in> {1..N}"
  shows "distinct (stored_finished_pages (absorb p st)) \<and> set (stored_finished_pages (absorb p st)) \<subseteq> {1..N}"
  using assms by (simp add: absorb_def delete_def)

lemma in_range_handle_message:
  assumes "in_range N d w" "m \<in> set (submitted w)"
  shows "in_range N d (handle_message env exec m w)"
proof -
  have chan: "\<forall>m'\<in>set (submitted (handle_message env exec m w)).
      type m' = Page \<and> document_id m' = d \<longrightarrow> (\<exists>p\<in>{1..N}. page m' = Some p)"
  proof
    fix m' assume "m' \<in> set (submitted (handle_message env exec m w))"
    with submitted_handle_message [of env exec m w]
    have "m' = end_message m \<or> m' \<in> set (submitted w)" by auto
    then show "type m' = Page \<and> document_id m' = d \<longrightarrow> (\<exists>p\<in>{1..N}. page m' = Some p)"
      using assms(1) by (auto simp: in_range_def end_message_def)
  qed
  have st: "distinct (stored_finished_pages (objects (handle_message env exec m w) d)) \<and>
      set (stored_finished_pages (objects (handle_message env exec m w) d)) \<subseteq> {1..N}"
  proof (cases "recorded_page d m")
    case None
    then show ?thesis using assms(1) by (simp add: handle_message_objects in_range_def)
  next
    case (Some p)
    then have "type m = Page \<and> document_id m = d" "page m = Some p"
      by (auto simp: recorded_page_def split: if_splits option.splits)
    with assms have "p \<in> {1..N}" by (auto simp: in_range_def)
    with in_range_absorb [of "objects w d" N p] assms(1) Some show ?thesis
      by (simp add: handle_message_objects in_range_def)
  qed
  from chan st show ?thesis by (simp add: in_range_def)
qed

lemma in_range_queue:
  "in_range N d w \<Longrightarrow> queue_from_channel env exec ms w \<Longrightarrow> in_range N d (queue env exec ms w)"
  by (induction ms arbitrary: w) (auto intro: in_range_handle_message)

lemma in_range_consume:
  "in_range N d w \<Longrightarrow> consume_from_channel env bs w \<Longrightarrow> in_range N d (consume env bs w)"
proof (induction bs arbitrary: w)
  case Nil
  then show ?case by simp
next
  case (Cons b bs)
  obtain exec batch where b: "b = (exec, batch)" by (cases b)
  from Cons.prems have "in_range N d (queue env exec batch w)"
    by (simp add: b in_range_queue)
  with Cons.IH [of "queue env exec batch w"] Cons.prems(2) show ?case
    by (simp add: b)
qed

lemma in_range_size:
  assumes "in_range N d w"
  shows "set_size (stored_finished_pages (objects w d)) \<le> max N 0"
proof -
  let ?fp = "stored_finished_pages (objects w d)"
  from assms have d: "distinct ?fp" and sub: "set ?fp \<subseteq> {1..N}" by (simp_all add: in_range_def)
  from d have "card (set ?fp) = length ?fp" by (rule distinct_card)
  moreover from sub have "card (set ?fp) \<le> card {1..N}" by (intro card_mono) simp_all
  ultimately have "length ?fp \<le> nat N" by simp
  then show ?thesis by (simp add: set_size_def)
qed

lemma submitted_send_to_queue:
  "set (submitted (snd (send_to_queue q doc w))) \<subseteq>
     set (submitted w) \<union> set (built_messages doc (requested_amount q) w)"
proof -
  consider "4294967295 < requested_amount q"
    | "requested_amount q \<le> 4294967295" "engine_refuses w (requested_amount q)"
    | "requested_amount q \<le> 4294967295" "\<not> engine_refuses w (requested_amount q)"
    by linarith
  then show ?thesis
  proof cases
    case 1
    then show ?thesis
      by (simp add: send_to_queue_refused stub_set_amount_of_pages_def)
  next
    case 2
    then show ?thesis
      by (simp add: send_to_queue_refused stub_set_amount_of_pages_def)
  next
    case 3
    then show ?thesis
      by (simp add: submitted_def send_to_queue_trace(2))
  qed
qed

lemma objects_send_to_queue:
  "objects (snd (send_to_queue q doc w)) =
     (objects w)(doc := set_amount_of_pages (requested_amount q) (objects w doc))"
proof -
  consider "4294967295 < requested_amount q"
    | "requested_amount q \<le> 4294967295" "engine_refuses w (requested_amount q)"
    | "requested_amount q \<le> 4294967295" "\<not> engine_refuses w (requested_amount q)"
    by linarith
  then show ?thesis
  proof cases
    case 1
    then show ?thesis
      by (simp add: send_to_queue_refused stub_set_amount_of_pages_def)
  next
    case 2
    then show ?thesis
      by (simp add: send_to_queue_refused stub_set_amount_of_pages_def)
  next
    case 3
    then show ?thesis
      by (simp add: send_to_queue_trace(3))
  qed
qed

lemma in_range_send_to_queue:
  assumes "objects w doc = empty_storage" "\<forall>m\<in>set (submitted w). document_id m \<noteq> doc"
  shows "in_range (requested_amount q) doc (snd (send_to_queue q doc w))"
proof -
  let ?N = "requested_amount q"
  have "\<forall>m\<in>set (built_messages doc ?N w). \<exists>p\<in>{1..?N}. page m = Some p"
    by (auto simp: built_messages_eq)
  with submitted_send_to_queue [of q doc w] assms(2)
  have "\<forall>m\<in>set (submitted (snd (send_to_queue q doc w))).
      type m = Page \<and> document_id m = doc \<longrightarrow> (\<exists>p\<in>{1..?N}. page m = Some p)"
    by blast
  moreover have "stored_finished_pages (objects (snd (send_to_queue q doc w)) doc) = []"
    using assms(1)
    by (simp add: objects_send_to_queue set_amount_of_pages_def stored_finished_pages_def empty_storage_def)
  ultimately show ?thesis by (simp add: in_range_def)
qed

section \<open>Facts about schedules\<close>

lemma run_schedule_append:
  "run_schedule (xs @ ys) c = run_schedule ys (run_schedule xs c)"
  by (induction xs arbitrary: c) simp_all

lemma true_observations_simps [simp]:
  "true_observations d (stub_finished_page d' p w) = true_observations d w"
  "true_observations d (stub_delete d' w) = true_observations d w"
  "true_observations d (queue_send m w) = true_observations d w"
  "true_observations d (snd (stub_is_finished d' w)) =
     true_observations d w + (if d' = d \<and> is_finished (objects w d') then 1 else 0)"
  by (auto simp: true_observations_def stub_finished_page_def stub_delete_def queue_send_def
      stub_is_finished_def Let_def)

lemma objects_stub_simps [simp]:
  "objects (stub_finished_page d p w) = (objects w)(d := finished_page p (objects w d))"
  "objects (stub_delete d w) = (objects w)(d := delete (objects w d))"
  "objects (queue_send m w) = objects w"
  "objects (snd (stub_is_finished d w)) = objects w"
  "fst (stub_is_finished d w) = is_finished (objects w d)"
  by (simp_all add: stub_finished_page_def stub_delete_def queue_send_def stub_is_finished_def Let_def)

lemma sched_step_eq:
  "i < length vs \<Longrightarrow>
     sched_step i (vs, w) = (vs[i := fst (advance (vs ! i) w)], snd (advance (vs ! i) w))"
  by (simp add: sched_step_def case_prod_beta)

lemma sched_step_idle: "\<not> i < length vs \<Longrightarrow> sched_step i (vs, w) = (vs, w)"
  by (simp add: sched_step_def)

lemma advance_at:
  "loc v = At_finished_page \<Longrightarrow>
     advance v w = (v\<lparr>loc := At_is_finished\<rparr>, stub_finished_page (document_id (body v)) (page_num v) w)"
  "loc v = At_is_finished \<Longrightarrow>
     advance v w = (v\<lparr>loc := (if is_finished (objects w (document_id (body v))) then At_send else Returned)\<rparr>,
                    snd (stub_is_finished (document_id (body v)) w))"
  "loc v = At_send \<Longrightarrow> advance v w = (v\<lparr>loc := At_delete\<rparr>, queue_send (end_message (body v)) w)"
  "loc v = At_delete \<Longrightarrow> advance v w = (v\<lparr>loc := Returned\<rparr>, stub_delete (document_id (body v)) w)"
  "loc v = Returned \<Longrightarrow> advance v w = (v, w)"
  by (simp_all add: advance_def stub_is_finished_def Let_def)

text \<open>The block of the consumer is the four steps of one invocation run alone.\<close>

lemma record_page_as_steps:
  "record_page m p w = snd (run_schedule [0, 0, 0, 0] ([start m p], w))"
  by (simp add: record_page_def sched_step_eq advance_at start_def Let_def case_prod_beta)

text \<open>One invocation run from its first call to its return, with no other call in between.\<close>

lemma run_alone:
  assumes "i < length vs" "loc (vs ! i) = At_finished_page" "document_id (body (vs ! i)) = d"
  shows "fst (run_schedule [i, i, i, i] (vs, w)) = vs[i := (vs ! i)\<lparr>loc := Returned\<rparr>]"
    and "objects (snd (run_schedule [i, i, i, i] (vs, w))) d = absorb (page_num (vs ! i)) (objects w d)"
    and "true_observations d (snd (run_schedule [i, i, i, i] (vs, w))) =
           true_observations d w + (if completes (page_num (vs ! i)) (objects w d) then 1 else 0)"
  using assms
  by (simp_all add: sched_step_eq advance_at absorb_def completes_def)

lemma serial_run:
  assumes "distinct order"
    and "\<forall>i\<in>set order. i < length vs \<and> loc (vs ! i) = At_finished_page \<and> document_id (body (vs ! i)) = d"
  shows "objects (snd (run_schedule (serial order) (vs, w))) d =
           fst (absorb_all (map (\<lambda>i. page_num (vs ! i)) order) (objects w d)) \<and>
         true_observations d (snd (run_schedule (serial order) (vs, w))) =
           true_observations d w + snd (absorb_all (map (\<lambda>i. page_num (vs ! i)) order) (objects w d)) \<and>
         length (fst (run_schedule (serial order) (vs, w))) = length vs \<and>
         (\<forall>j<length vs. loc (fst (run_schedule (serial order) (vs, w)) ! j) =
                          (if j \<in> set order then Returned else loc (vs ! j)))"
  using assms
proof (induction order arbitrary: vs w)
  case Nil
  then show ?case by (simp add: serial_def)
next
  case (Cons i order)
  let ?c1 = "run_schedule [i, i, i, i] (vs, w)"
  let ?vs1 = "vs[i := (vs ! i)\<lparr>loc := Returned\<rparr>]"
  from Cons.prems have i: "i < length vs" "loc (vs ! i) = At_finished_page" "document_id (body (vs ! i)) = d"
    and notin: "i \<notin> set order" and dist: "distinct order"
    by simp_all
  have c1: "?c1 = (?vs1, snd ?c1)"
    using run_alone(1) [OF i, of w] by (metis prod.collapse)
  have split: "run_schedule (serial (i # order)) (vs, w) = run_schedule (serial order) (?vs1, snd ?c1)"
    using run_schedule_append [of "[i, i, i, i]" "serial order" "(vs, w)"] c1
    by (simp add: serial_def)
  have others: "\<forall>j\<in>set order. ?vs1 ! j = vs ! j"
  proof
    fix j assume "j \<in> set order"
    with notin have "i \<noteq> j" by blast
    then show "?vs1 ! j = vs ! j" by simp
  qed
  have prem: "\<forall>j\<in>set order. j < length ?vs1 \<and> loc (?vs1 ! j) = At_finished_page \<and>
      document_id (body (?vs1 ! j)) = d"
    using Cons.prems(2) others by simp
  have pages: "map (\<lambda>j. page_num (?vs1 ! j)) order = map (\<lambda>j. page_num (vs ! j)) order"
    using others by (intro map_cong) simp_all
  note IH = Cons.IH [OF dist prem, of "snd ?c1", unfolded pages]
  have locs: "\<forall>j<length vs. loc (fst (run_schedule (serial order) (?vs1, snd ?c1)) ! j) =
                          (if j \<in> set (i # order) then Returned else loc (vs ! j))"
  proof (intro allI impI)
    fix j assume j: "j < length vs"
    with IH have "loc (fst (run_schedule (serial order) (?vs1, snd ?c1)) ! j) =
        (if j \<in> set order then Returned else loc (?vs1 ! j))" by simp
    then show "loc (fst (run_schedule (serial order) (?vs1, snd ?c1)) ! j) =
                          (if j \<in> set (i # order) then Returned else loc (vs ! j))"
      using j by (cases "j = i") simp_all
  qed
  from IH locs run_alone(2,3) [OF i, of w] show ?case
    unfolding split by (simp add: case_prod_beta)
qed

lemma advance_static [simp]:
  "body (fst (advance v w)) = body v" "page_num (fst (advance v w)) = page_num v"
  by (cases "loc v"; simp add: advance_at)+

lemma advance_true_observations_mono:
  "true_observations d w \<le> true_observations d (snd (advance v w))"
  by (cases "loc v") (simp_all add: advance_at)

lemma sched_step_length [simp]: "length (fst (sched_step i (vs, w))) = length vs"
  by (cases "i < length vs") (simp_all add: sched_step_eq sched_step_idle)

lemma sched_step_mono:
  "true_observations d w \<le> true_observations d (snd (sched_step i (vs, w)))"
  by (cases "i < length vs") (simp_all add: sched_step_eq sched_step_idle advance_true_observations_mono)

lemma same_job_step:
  assumes "same_job d vs"
  shows "same_job d (fst (sched_step i (vs, w)))"
proof (cases "i < length vs")
  case True
  have "(map page_num vs)[i := map page_num vs ! i] = map page_num vs"
    by (rule list_update_id)
  with True have "map page_num (vs[i := fst (advance (vs ! i) w)]) = map page_num vs"
    by (simp add: map_update)
  moreover have "\<forall>v\<in>set (vs[i := fst (advance (vs ! i) w)]). document_id (body v) = d"
  proof
    fix v assume "v \<in> set (vs[i := fst (advance (vs ! i) w)])"
    then have "v = fst (advance (vs ! i) w) \<or> v \<in> set vs"
      using set_update_subset_insert [of vs i] by auto
    with assms True show "document_id (body v) = d"
      by (auto simp: same_job_def)
  qed
  ultimately show ?thesis using assms True by (simp add: sched_step_eq same_job_def)
next
  case False
  with assms show ?thesis by (simp add: sched_step_idle)
qed

lemma all_recorded_is_finished:
  assumes "same_job d vs" "unobserved d vs w" "\<forall>v\<in>set vs. loc v \<noteq> At_finished_page"
  shows "is_finished (objects w d)"
proof -
  let ?fp = "stored_finished_pages (objects w d)"
  from assms(2,3) have "set ?fp = set (map page_num vs)"
    by (auto simp: unobserved_def)
  moreover from assms(2) have "distinct ?fp"
    by (simp add: unobserved_def)
  then have "card (set ?fp) = length ?fp"
    by (rule distinct_card)
  moreover from assms(1) have "distinct (map page_num vs)"
    by (simp add: same_job_def)
  then have "card (set (map page_num vs)) = length (map page_num vs)"
    by (rule distinct_card)
  ultimately have "length ?fp = length vs" by simp
  with assms(2) show ?thesis
    by (simp add: is_finished_iff set_size_def unobserved_def)
qed

lemma unobserved_step:
  assumes job: "same_job d vs" and inv: "unobserved d vs w" and i: "i < length vs"
  shows "unobserved d (fst (sched_step i (vs, w))) (snd (sched_step i (vs, w))) \<or>
         true_observations d w < true_observations d (snd (sched_step i (vs, w)))"
proof -
  let ?v = "vs ! i"
  from i have v: "?v \<in> set vs" by simp
  from job v have doc: "document_id (body ?v) = d" by (simp add: same_job_def)
  from job have dvs: "distinct vs" by (simp add: same_job_def distinct_map)
  have upd: "\<And>x. set (vs[i := x]) = insert x (set vs - {?v})"
    using dvs i by (rule set_update_distinct)
  from inv v consider "loc ?v = At_finished_page" | "loc ?v = At_is_finished" | "loc ?v = Returned"
    by (auto simp: unobserved_def)
  then show ?thesis
  proof cases
    case 1
    let ?v' = "?v\<lparr>loc := At_is_finished\<rparr>"
    have step: "sched_step i (vs, w) = (vs[i := ?v'], stub_finished_page d (page_num ?v) w)"
      using i 1 doc by (simp add: sched_step_eq advance_at)
    have "{u \<in> set (vs[i := ?v']). loc u \<noteq> At_finished_page}
            = insert ?v' {u \<in> set vs. loc u \<noteq> At_finished_page}"
      using 1 by (auto simp: upd)
    then have "page_num ` {u \<in> set (vs[i := ?v']). loc u \<noteq> At_finished_page}
            = insert (page_num ?v) (page_num ` {u \<in> set vs. loc u \<noteq> At_finished_page})"
      by simp
    with inv have "unobserved d (vs[i := ?v']) (stub_finished_page d (page_num ?v) w)"
      by (auto simp: unobserved_def upd)
    then show ?thesis by (simp add: step)
  next
    case 2
    show ?thesis
    proof (cases "is_finished (objects w d)")
      case True
      with i 2 doc show ?thesis by (simp add: sched_step_eq advance_at)
    next
      case False
      let ?v' = "?v\<lparr>loc := Returned\<rparr>"
      have step: "sched_step i (vs, w) = (vs[i := ?v'], snd (stub_is_finished d w))"
        using i 2 doc False by (simp add: sched_step_eq advance_at)
      from False all_recorded_is_finished [OF job inv]
      obtain u where u: "u \<in> set vs" "loc u = At_finished_page" by blast
      with 2 have "u \<noteq> ?v" by auto
      with u have ex: "\<exists>x\<in>set (vs[i := ?v']). loc x = At_finished_page \<or> loc x = At_is_finished"
        by (auto simp: upd)
      have "{x \<in> set (vs[i := ?v']). loc x \<noteq> At_finished_page}
              = insert ?v' ({x \<in> set vs. loc x \<noteq> At_finished_page} - {?v})"
        by (auto simp: upd)
      then have "page_num ` {x \<in> set (vs[i := ?v']). loc x \<noteq> At_finished_page}
              = insert (page_num ?v) (page_num ` ({x \<in> set vs. loc x \<noteq> At_finished_page} - {?v}))"
        by simp
      also have "\<dots> = page_num ` {x \<in> set vs. loc x \<noteq> At_finished_page}"
        using v 2 by auto
      finally have img: "page_num ` {x \<in> set (vs[i := ?v']). loc x \<noteq> At_finished_page}
              = page_num ` {x \<in> set vs. loc x \<noteq> At_finished_page}" .
      from inv ex have "unobserved d (vs[i := ?v']) (snd (stub_is_finished d w))"
        unfolding unobserved_def img by (auto simp: upd)
      then show ?thesis by (simp add: step)
    qed
  next
    case 3
    with i inv show ?thesis by (simp add: sched_step_eq advance_at)
  qed
qed

lemma interleaved_run:
  assumes "same_job d vs" "t \<le> true_observations d w"
    and "unobserved d vs w \<or> t < true_observations d w"
  shows "unobserved d (fst (run_schedule sched (vs, w))) (snd (run_schedule sched (vs, w))) \<or>
         t < true_observations d (snd (run_schedule sched (vs, w)))"
  using assms
proof (induction sched arbitrary: vs w)
  case Nil
  then show ?case by simp
next
  case (Cons i sched)
  let ?c = "sched_step i (vs, w)"
  have job: "same_job d (fst ?c)" using Cons.prems(1) by (rule same_job_step)
  have mono: "true_observations d w \<le> true_observations d (snd ?c)" by (rule sched_step_mono)
  with Cons.prems(2) have le: "t \<le> true_observations d (snd ?c)" by simp
  have "unobserved d (fst ?c) (snd ?c) \<or> t < true_observations d (snd ?c)"
  proof (cases "i < length vs")
    case True
    from Cons.prems(3) show ?thesis
    proof
      assume "unobserved d vs w"
      from unobserved_step [OF Cons.prems(1) this True] Cons.prems(2)
      show ?thesis by auto
    next
      assume "t < true_observations d w"
      with mono show ?thesis by simp
    qed
  next
    case False
    with Cons.prems(3) show ?thesis by (simp add: sched_step_idle)
  qed
  from Cons.IH [OF job le this] show ?case by simp
qed

lemma initially_unobserved:
  assumes "vs \<noteq> []" "\<forall>v\<in>set vs. loc v = At_finished_page"
    and "objects w d = set_amount_of_pages (int (length vs)) empty_storage"
  shows "unobserved d vs w"
proof -
  from assms(1) obtain v where "v \<in> set vs" by (cases vs) auto
  with assms(2,3) show ?thesis
    by (auto simp: unobserved_def set_amount_of_pages_def empty_storage_def stored_finished_pages_def)
qed

lemma returned_not_unobserved: "all_returned vs \<Longrightarrow> \<not> unobserved d vs w"
  by (auto simp: all_returned_def unobserved_def list_all_iff)

section \<open>The claims\<close>

text \<open>
  C1. A job is initialised with \<open>N \<ge> 1\<close> expected pages on a fresh object. Batches are
  delivered to the consumer one after another, in any order and with any duplicates (and
  with any other messages in between); together they contain a page message for each of
  the pages \<open>1\<close> to \<open>N\<close>. Then over the whole delivery sequence the check
  \<open>is_finished\<close> returns \<open>true\<close> for this document exactly once, exactly one \<open>end\<close>
  message is sent for it, and its state is deleted exactly once.
\<close>

theorem completion_exactly_once:
  assumes "1 \<le> N"
    and "objects w d = set_amount_of_pages N empty_storage"
    and "\<forall>p\<in>{1..N}. \<exists>m\<in>set (delivered bs). type m = Page \<and> document_id m = d \<and> page m = Some p"
  shows "true_observations d (consume env bs w) = true_observations d w + 1 \<and>
         ends_sent d (consume env bs w) = ends_sent d w + 1 \<and>
         deletions d (consume env bs w) = deletions d w + 1"
proof -
  have pend: "pending N (objects w d)"
    using assms(1,2)
    by (simp add: pending_def set_amount_of_pages_def empty_storage_def stored_finished_pages_def
        set_size_def)
  have "{1..N} \<subseteq> set (pages_for d bs)"
  proof
    fix p assume p: "p \<in> {1..N}"
    with assms(3) obtain m where "m \<in> set (delivered bs)" "type m = Page" "document_id m = d" "page m = Some p"
      by blast
    moreover from p have "p \<noteq> 0" by simp
    ultimately have "m \<in> set (delivered bs)" "recorded_page d m = Some p"
      by (simp_all add: recorded_page_def)
    then show "p \<in> set (pages_for d bs)"
      unfolding pages_for_def set_map_filter by blast
  qed
  then have "card {1..N} \<le> card (set (stored_finished_pages (objects w d)) \<union> set (pages_for d bs))"
    by (intro card_mono) auto
  then have "N \<le> int (card (set (stored_finished_pages (objects w d)) \<union> set (pages_for d bs)))"
    by simp
  with pending_absorb_all [OF pend, of "pages_for d bs"]
  have "snd (absorb_all (pages_for d bs) (objects w d)) = 1" by blast
  with consume_projection [of env bs w d] show ?thesis by simp
qed

theorem completion_exactly_once_witness:
  "true_observations ''doc''
     (consume example_env
        [(''x1'', [page_message ''doc'' 2 2, page_message ''doc'' 2 2]),
         (''x2'', [page_message ''doc'' 2 1, page_message ''doc'' 2 2])]
        (stub_set_amount_of_pages ''doc'' 2 example_world)) = 1 \<and>
   ends_sent ''doc''
     (consume example_env
        [(''x1'', [page_message ''doc'' 2 2, page_message ''doc'' 2 2]),
         (''x2'', [page_message ''doc'' 2 1, page_message ''doc'' 2 2])]
        (stub_set_amount_of_pages ''doc'' 2 example_world)) = 1 \<and>
   deletions ''doc''
     (consume example_env
        [(''x1'', [page_message ''doc'' 2 2, page_message ''doc'' 2 2]),
         (''x2'', [page_message ''doc'' 2 1, page_message ''doc'' 2 2])]
        (stub_set_amount_of_pages ''doc'' 2 example_world)) = 1"
proof -
  have h1: "1 \<le> (2::int)" by simp
  have h2: "objects (stub_set_amount_of_pages ''doc'' 2 example_world) ''doc'' =
              set_amount_of_pages 2 empty_storage"
    by (simp add: stub_set_amount_of_pages_def example_world_def)
  have h3: "\<forall>p\<in>{1..2::int}. \<exists>m\<in>set (delivered
        [(''x1'', [page_message ''doc'' 2 2, page_message ''doc'' 2 2]),
         (''x2'', [page_message ''doc'' 2 1, page_message ''doc'' 2 2])]).
        type m = Page \<and> document_id m = ''doc'' \<and> page m = Some p"
  proof
    fix p :: int assume "p \<in> {1..2}"
    then have "p = 1 \<or> p = 2" by auto
    then show "\<exists>m\<in>set (delivered
        [(''x1'', [page_message ''doc'' 2 2, page_message ''doc'' 2 2]),
         (''x2'', [page_message ''doc'' 2 1, page_message ''doc'' 2 2])]).
        type m = Page \<and> document_id m = ''doc'' \<and> page m = Some p"
      by (auto simp: delivered_def page_message_def)
  qed
  have t0: "true_observations ''doc'' (stub_set_amount_of_pages ''doc'' 2 example_world) = 0"
    "ends_sent ''doc'' (stub_set_amount_of_pages ''doc'' 2 example_world) = 0"
    "deletions ''doc'' (stub_set_amount_of_pages ''doc'' 2 example_world) = 0"
    by (simp_all add: true_observations_def ends_sent_def deletions_def
        stub_set_amount_of_pages_def example_world_def count_events_def emit_def)
  show ?thesis
    using completion_exactly_once [OF h1 h2 h3, of example_env] by (simp add: t0)
qed

text \<open>
  C2, as amended. The completion check is not one atomic read-modify-write: the consumer
  calls \<open>finished_page\<close> and then, in a second call, \<open>is_finished\<close>. \<open>N \<ge> 1\<close> invocations
  for one freshly initialised job of size \<open>N\<close>, each with its own page, are run under a
  schedule of their calls. When the invocations run one after another, in any order, each
  through all its calls before the next starts, exactly one \<open>is_finished\<close> returns
  \<open>true\<close>. Under every schedule that lets all invocations return, at least one
  \<open>is_finished\<close> returns \<open>true\<close>.
\<close>

theorem separate_calls_complete_once_when_serial:
  assumes "vs \<noteq> []"
    and "\<forall>v\<in>set vs. loc v = At_finished_page \<and> document_id (body v) = d"
    and "distinct (map page_num vs)"
    and "objects w d = set_amount_of_pages (int (length vs)) empty_storage"
  shows "(distinct order \<and> set order = {0..<length vs} \<longrightarrow>
            all_returned (fst (run_schedule (serial order) (vs, w))) \<and>
            true_observations d (snd (run_schedule (serial order) (vs, w))) = true_observations d w + 1) \<and>
         (all_returned (fst (run_schedule sched (vs, w))) \<longrightarrow>
            true_observations d w < true_observations d (snd (run_schedule sched (vs, w))))"
proof (intro conjI impI)
  assume order: "distinct order \<and> set order = {0..<length vs}"
  let ?c = "run_schedule (serial order) (vs, w)"
  let ?pages = "map (\<lambda>i. page_num (vs ! i)) order"
  have prem: "\<forall>i\<in>set order. i < length vs \<and> loc (vs ! i) = At_finished_page \<and>
      document_id (body (vs ! i)) = d"
    using order assms(2) by simp
  note run = serial_run [OF conjunct1 [OF order] prem, of w]
  have "\<forall>j<length (fst ?c). loc (fst ?c ! j) = Returned"
    using run order by simp
  then show "all_returned (fst ?c)"
    by (simp add: all_returned_def list_all_length)
  have "set ?pages = set (map page_num vs)"
  proof -
    have "set ?pages = page_num ` ((!) vs ` {0..<length vs})"
      using order by (simp add: image_image)
    also have "(!) vs ` {0..<length vs} = set vs"
      by (simp add: set_conv_nth [of vs] image_def) (metis atLeastLessThan_iff le0)
    finally show ?thesis by simp
  qed
  moreover have "card (set (map page_num vs)) = length (map page_num vs)"
    using assms(3) by (rule distinct_card)
  ultimately have card: "card (set ?pages) = length vs" by simp
  have pend: "pending (int (length vs)) (objects w d)"
    using assms(1,4)
    by (simp add: pending_def set_amount_of_pages_def empty_storage_def stored_finished_pages_def
        set_size_def)
  have "stored_finished_pages (objects w d) = []"
    using assms(4) by (simp add: set_amount_of_pages_def empty_storage_def stored_finished_pages_def)
  with pending_absorb_all [OF pend, of ?pages] card
  have "snd (absorb_all ?pages (objects w d)) = 1" by simp
  with run show "true_observations d (snd ?c) = true_observations d w + 1" by simp
next
  assume fin: "all_returned (fst (run_schedule sched (vs, w)))"
  have job: "same_job d vs" using assms(2,3) by (simp add: same_job_def)
  have "unobserved d vs w" using assms(1,2,4) by (intro initially_unobserved) simp_all
  then have "unobserved d vs w \<or> true_observations d w < true_observations d w" ..
  from interleaved_run [OF job order_refl this, of sched] returned_not_unobserved [OF fin]
  show "true_observations d w < true_observations d (snd (run_schedule sched (vs, w)))"
    by blast
qed

theorem separate_calls_complete_once_when_serial_witness:
  "true_observations ''doc'' (snd (run_schedule (serial [1, 0])
      (two_invocations, stub_set_amount_of_pages ''doc'' 2 example_world))) = 1 \<and>
   0 < true_observations ''doc'' (snd (run_schedule [0, 1, 0, 1, 0, 0, 1, 1]
      (two_invocations, stub_set_amount_of_pages ''doc'' 2 example_world)))"
proof -
  let ?w = "stub_set_amount_of_pages ''doc'' 2 example_world"
  have h1: "two_invocations \<noteq> []" by (simp add: two_invocations_def)
  have h2: "\<forall>v\<in>set two_invocations. loc v = At_finished_page \<and> document_id (body v) = ''doc''"
    by (simp add: two_invocations_def start_def page_message_def)
  have h3: "distinct (map page_num two_invocations)"
    by (simp add: two_invocations_def start_def)
  have h4: "objects ?w ''doc'' = set_amount_of_pages (int (length two_invocations)) empty_storage"
    by (simp add: two_invocations_def example_job)
  have ord: "distinct [1, 0::nat] \<and> set [1, 0::nat] = {0..<length two_invocations}"
    by (auto simp: two_invocations_def)
  have ret: "all_returned (fst (run_schedule [0, 1, 0, 1, 0, 0, 1, 1] (two_invocations, ?w)))"
    by code_simp
  have t0: "true_observations ''doc'' ?w = 0"
    by (simp add: true_observations_def stub_set_amount_of_pages_def count_events_def)
  from separate_calls_complete_once_when_serial [OF h1 h2 h3 h4, of "[1, 0]" "[0, 1, 0, 1, 0, 0, 1, 1]"]
    ord ret t0
  show ?thesis by simp
qed

text \<open>
  C2 as stated fails: two invocations for a job of two pages, both calling
  \<open>finished_page\<close> before either calls \<open>is_finished\<close>. Both checks return \<open>true\<close> and two
  \<open>end\<close> messages are sent.
\<close>

theorem interleaved_calls_complete_twice:
  "all_returned (fst (run_schedule [0, 1, 0, 1, 0, 0, 1, 1]
      (two_invocations, stub_set_amount_of_pages ''doc'' 2 example_world))) \<and>
   true_observations ''doc'' (snd (run_schedule [0, 1, 0, 1, 0, 0, 1, 1]
      (two_invocations, stub_set_amount_of_pages ''doc'' 2 example_world))) = 2 \<and>
   ends_sent ''doc'' (snd (run_schedule [0, 1, 0, 1, 0, 0, 1, 1]
      (two_invocations, stub_set_amount_of_pages ''doc'' 2 example_world))) = 2"
  by code_simp

text \<open>
  C3, as amended. For a document whose state was deleted, or that was never initialised,
  \<open>get_finished_pages\<close> returns the empty set and \<open>is_finished\<close> returns \<open>true\<close>: the empty
  set has size \<open>0\<close>, and the missing amount reads as \<open>0\<close>. So \<open>/status\<close> answers
  \<open>{finished: true, finished_pages: []}\<close> after \<open>delete\<close>, and also for a document that
  never existed.
\<close>

theorem absent_job_reports_finished:
  "is_finished (delete st) \<and> get_finished_pages (delete st) = [] \<and>
   is_finished empty_storage \<and> get_finished_pages empty_storage = [] \<and>
   fst (status (Some d) (stub_delete d w)) = Json True [] \<and>
   (objects w d = empty_storage \<longrightarrow> fst (status (Some d) w) = Json True [])"
  by (simp add: is_finished_def delete_def get_finished_pages_def empty_storage_def
      stored_finished_pages_def stored_amount_of_pages_def set_size_def status_def
      stub_is_finished_def stub_get_finished_pages_def stub_delete_def Let_def)

theorem absent_job_reports_finished_witness:
  "fst (status (Some ''doc'') example_world) = Json True []"
proof -
  have h: "objects example_world ''doc'' = empty_storage" by (simp add: example_world_def)
  from absent_job_reports_finished [of empty_storage "''doc''" example_world] h
  show ?thesis by blast
qed

text \<open>
  C3 as stated fails: after \<open>delete\<close>, \<open>is_finished\<close> returns \<open>true\<close>, not \<open>false\<close>, and
  \<open>/status\<close> reports \<open>finished: true\<close>.
\<close>

theorem deleted_job_reports_finished:
  "is_finished (delete \<lparr>amount_of_pages = Some 3, finished_pages = Some [1, 2, 3]\<rparr>) = True \<and>
   fst (status (Some ''doc'') (stub_delete ''doc'' (stub_set_amount_of_pages ''doc'' 3 example_world)))
     = Json True []"
  by (simp add: is_finished_def delete_def get_finished_pages_def empty_storage_def
      stored_finished_pages_def stored_amount_of_pages_def set_size_def status_def
      stub_is_finished_def stub_get_finished_pages_def stub_delete_def Let_def)

text \<open>
  C4, as amended. When the requested size is absent or empty, fails to parse as a number or
  parses to \<open>0\<close>, \<open>/send_to_queue\<close> falls back to the default size \<open>100\<close>: it initialises
  the job with 100 expected pages and submits exactly 100 messages of type \<open>page\<close>.
\<close>

theorem unparsable_or_zero_amount_defaults:
  assumes "q = None \<or> q = Some [] \<or> (\<exists>s. q = Some s \<and> (parseInt s = None \<or> parseInt s = Some 0))"
  shows "requested_amount q = 100 \<and>
         fst (send_to_queue q doc w) =
           Inr (Text (''Document: '' @ doc @ ''. Sent 100 messages to the queue!'')) \<and>
         amount_of_pages (objects (snd (send_to_queue q doc w)) doc) = Some 100 \<and>
         trace (snd (send_to_queue q doc w)) =
           trace w @ [Call doc (Set_amount_of_pages 100), SendBatch (built_messages doc 100 w)] \<and>
         length (built_messages doc 100 w) = 100 \<and>
         (\<forall>m\<in>set (built_messages doc 100 w). type m = Page)"
proof -
  from assms have r: "requested_amount q = 100"
    by (auto simp: requested_amount_default)
  then have le: "requested_amount q \<le> 4294967295"
    and eng: "\<not> engine_refuses w (requested_amount q)"
    by (simp_all add: default_not_refused)
  have len: "length (built_messages doc 100 w) = 100"
    by (simp add: built_messages_eq)
  then have "\<not> queue_refuses w (built_messages doc 100 w)"
    by (simp add: default_not_refused)
  with send_to_queue_trace [OF le eng, of doc] r len show ?thesis
    by (auto simp: toString_100 set_amount_of_pages_def built_messages_eq)
qed

theorem unparsable_or_zero_amount_defaults_witness:
  "requested_amount (Some ''abc'') = 100 \<and>
   amount_of_pages (objects (snd (send_to_queue (Some ''abc'') ''doc'' example_world)) ''doc'') = Some 100 \<and>
   requested_amount (Some ''0'') = 100 \<and>
   amount_of_pages (objects (snd (send_to_queue (Some ''0'') ''doc'' example_world)) ''doc'') = Some 100"
proof -
  have h1: "Some ''abc'' = None \<or> Some ''abc'' = Some [] \<or>
      (\<exists>s. Some ''abc'' = Some s \<and> (parseInt s = None \<or> parseInt s = Some 0))"
    by (simp add: parseInt_examples)
  have h2: "Some ''0'' = None \<or> Some ''0'' = Some [] \<or>
      (\<exists>s. Some ''0'' = Some s \<and> (parseInt s = None \<or> parseInt s = Some 0))"
    by (simp add: parseInt_examples)
  from unparsable_or_zero_amount_defaults [OF h1, of "''doc''" example_world]
    unparsable_or_zero_amount_defaults [OF h2, of "''doc''" example_world]
  show ?thesis by blast
qed

text \<open>
  C4 as stated fails for a size that parses to a negative number: the fallback is
  \<open>|| defaultAmount\<close>, which catches \<open>NaN\<close> and \<open>0\<close> only. For \<open>amount=-5\<close> the handler
  stores \<open>-5\<close> as the number of expected pages and submits a batch of no messages.
\<close>

theorem negative_amount_is_kept:
  "requested_amount (Some ''-5'') = - 5 \<and>
   amount_of_pages (objects (snd (send_to_queue (Some ''-5'') ''doc'' example_world)) ''doc'') = Some (- 5) \<and>
   batch_sizes (snd (send_to_queue (Some ''-5'') ''doc'' example_world)) = [0]"
proof -
  have r: "requested_amount (Some ''-5'') = - 5" by (rule requested_amount_examples)
  then have "\<not> engine_refuses example_world (requested_amount (Some ''-5''))"
    by (simp add: default_not_refused)
  with r show ?thesis
    by (simp add: objects_send_to_queue batch_sizes_send_to_queue set_amount_of_pages_def)
qed

text \<open>
  C5, as amended. For every requested size \<open>N\<close> above \<open>100\<close> that the engine does not
  refuse to build, \<open>/send_to_queue\<close> makes no check of its own: it initialises the job with
  \<open>N\<close> expected pages and then calls \<open>sendBatch\<close> once, with all \<open>N\<close> messages. It answers
  that \<open>N\<close> messages were sent unless the queue refuses the batch.
\<close>

theorem oversized_amount_goes_in_one_batch:
  assumes "requested_amount q = N" "100 < N" "N \<le> 4294967295" "\<not> engine_refuses w N"
  shows "amount_of_pages (objects (snd (send_to_queue q doc w)) doc) = Some N \<and>
         trace (snd (send_to_queue q doc w)) =
           trace w @ [Call doc (Set_amount_of_pages N), SendBatch (built_messages doc N w)] \<and>
         int (length (built_messages doc N w)) = N \<and>
         batch_sizes (snd (send_to_queue q doc w)) = batch_sizes w @ [nat N] \<and>
         fst (send_to_queue q doc w) =
           (if queue_refuses w (built_messages doc N w) then Inl SendBatchError
            else Inr (Text (''Document: '' @ doc @ ''. Sent '' @ toString N
                            @ '' messages to the queue!'')))"
proof -
  from assms have le: "requested_amount q \<le> 4294967295"
    and eng: "\<not> engine_refuses w (requested_amount q)"
    by simp_all
  have "int (length (built_messages doc N w)) = N"
    using assms(2) by (simp add: built_messages_eq)
  with send_to_queue_trace [OF le eng, of doc] batch_sizes_send_to_queue [OF le eng, of doc] assms(1)
  show ?thesis by (simp add: set_amount_of_pages_def)
qed

theorem oversized_amount_goes_in_one_batch_witness:
  "batch_sizes (snd (send_to_queue (Some ''101'') ''doc'' example_world)) = [101] \<and>
   amount_of_pages (objects (snd (send_to_queue (Some ''101'') ''doc'' example_world)) ''doc'') = Some 101"
proof -
  have h1: "requested_amount (Some ''101'') = 101"
    by (simp add: requested_amount_def parseInt_def digit_value_def digits_number_def
        is_white_space_def)
  have h2: "(100::int) < 101" by simp
  have h3: "(101::int) \<le> 4294967295" by simp
  have h4: "\<not> engine_refuses example_world 101"
    by (simp add: engine_refuses_def example_world_def)
  from oversized_amount_goes_in_one_batch [OF h1 h2 h3 h4, of "''doc''"]
  show ?thesis by simp
qed

text \<open>
  C5 as stated fails: for \<open>amount=250\<close> the handler neither rejects the request nor splits
  the submission. It calls \<open>sendBatch\<close> once, with 250 messages.
\<close>

theorem oversized_batch_is_submitted:
  "requested_amount (Some ''250'') = 250 \<and>
   batch_sizes (snd (send_to_queue (Some ''250'') ''doc'' example_world)) = [250]"
proof -
  have r: "requested_amount (Some ''250'') = 250" by (rule requested_amount_examples)
  then have "\<not> engine_refuses example_world (requested_amount (Some ''250''))"
    by (simp add: engine_refuses_def example_world_def)
  with r show ?thesis
    by (simp add: batch_sizes_send_to_queue)
qed

text \<open>
  C6, as amended. Recording is idempotent: for every storage and every page,
  \<open>finished_page\<close> applied twice leaves the storage that one application leaves, so the
  second call does not increase the size of the set. And when messages are handled one
  after another, a duplicate never fires the completion: when a job was initialised on a
  fresh object and a page message for \<open>p\<close> was already handled during the delivery
  sequence, handling another page message for \<open>p\<close> gives no \<open>true\<close> from \<open>is_finished\<close>,
  sends no \<open>end\<close> message and deletes nothing.
\<close>

theorem recording_is_idempotent:
  "finished_page p (finished_page p st) = finished_page p st \<and>
   set_size (get_finished_pages (finished_page p (finished_page p st)))
     = set_size (get_finished_pages (finished_page p st)) \<and>
   (objects w d = set_amount_of_pages N empty_storage \<longrightarrow>
    (\<exists>m'\<in>set (delivered bs). type m' = Page \<and> document_id m' = d \<and> page m' = Some p) \<longrightarrow>
    type m = Page \<and> document_id m = d \<and> page m = Some p \<longrightarrow> p \<noteq> 0 \<longrightarrow>
      true_observations d (handle_message env exec m (consume env bs w))
        = true_observations d (consume env bs w) \<and>
      ends_sent d (handle_message env exec m (consume env bs w)) = ends_sent d (consume env bs w) \<and>
      deletions d (handle_message env exec m (consume env bs w)) = deletions d (consume env bs w))"
proof (intro conjI impI)
  show twice: "finished_page p (finished_page p st) = finished_page p st"
    by (simp add: finished_page_def stored_finished_pages_def set_add_def)
  show "set_size (get_finished_pages (finished_page p (finished_page p st)))
     = set_size (get_finished_pages (finished_page p st))"
    by (simp only: twice)
next
  assume init: "objects w d = set_amount_of_pages N empty_storage"
    and earlier: "\<exists>m'\<in>set (delivered bs). type m' = Page \<and> document_id m' = d \<and> page m' = Some p"
    and dup: "type m = Page \<and> document_id m = d \<and> page m = Some p" and nz: "p \<noteq> 0"
  from earlier nz have "p \<in> set (pages_for d bs)"
    by (blast intro: in_pages_for recorded_pageI)
  from duplicate_never_completes [OF init this] consume_projection [of env bs w d]
  have no: "\<not> completes p (objects (consume env bs w) d)" by simp
  from dup nz have rec: "recorded_page d m = Some p" by (simp add: recorded_page_def)
  show "true_observations d (handle_message env exec m (consume env bs w))
        = true_observations d (consume env bs w)"
    by (simp add: handle_message_true_observations rec no)
  show "ends_sent d (handle_message env exec m (consume env bs w)) = ends_sent d (consume env bs w)"
    by (simp add: handle_message_ends_sent rec no)
  show "deletions d (handle_message env exec m (consume env bs w)) = deletions d (consume env bs w)"
    by (simp add: handle_message_deletions rec no)
qed

theorem recording_is_idempotent_witness:
  "true_observations ''doc''
     (handle_message example_env ''x2'' (page_message ''doc'' 2 1)
        (consume example_env [(''x1'', [page_message ''doc'' 2 1])]
           (stub_set_amount_of_pages ''doc'' 2 example_world)))
   = true_observations ''doc''
       (consume example_env [(''x1'', [page_message ''doc'' 2 1])]
          (stub_set_amount_of_pages ''doc'' 2 example_world))"
proof -
  have earlier: "\<exists>m'\<in>set (delivered [(''x1'', [page_message ''doc'' 2 1])]).
      type m' = Page \<and> document_id m' = ''doc'' \<and> page m' = Some 1"
    by (simp add: delivered_def page_message_def)
  have dup: "type (page_message ''doc'' 2 1) = Page \<and> document_id (page_message ''doc'' 2 1) = ''doc'' \<and>
      page (page_message ''doc'' 2 1) = Some 1"
    by (simp add: page_message_def)
  have nz: "(1::int) \<noteq> 0" by simp
  from recording_is_idempotent [of 1 empty_storage "stub_set_amount_of_pages ''doc'' 2 example_world"
      "''doc''" 2 "[(''x1'', [page_message ''doc'' 2 1])]" "page_message ''doc'' 2 1"
      example_env "''x2''"] example_job [of 2] earlier dup nz
  show ?thesis by blast
qed

text \<open>
  C6 as stated fails when the duplicate is handled by a second invocation that overlaps
  the first: for a job of one page, the first invocation records page \<open>1\<close> and sees the
  job complete; before it deletes the state, the second records page \<open>1\<close> again and sees
  the job complete too. Two checks return \<open>true\<close> and two \<open>end\<close> messages are sent.
\<close>

theorem overlapping_duplicate_completes_twice:
  "all_returned (fst (run_schedule [0, 0, 1, 1, 0, 0, 1, 1]
      (duplicate_invocations, stub_set_amount_of_pages ''doc'' 1 example_world))) \<and>
   true_observations ''doc'' (snd (run_schedule [0, 0, 1, 1, 0, 0, 1, 1]
      (duplicate_invocations, stub_set_amount_of_pages ''doc'' 1 example_world))) = 2 \<and>
   ends_sent ''doc'' (snd (run_schedule [0, 0, 1, 1, 0, 0, 1, 1]
      (duplicate_invocations, stub_set_amount_of_pages ''doc'' 1 example_world))) = 2"
  by code_simp

text \<open>
  C7, as amended. \<open>/send_to_queue\<close> is called with an effective size \<open>N \<ge> 0\<close> for a document
  id that has no state and no message in the channel. Then in every state that the
  consumer reaches by handling messages delivered from the channel, in any order and with
  any duplicates, the stored set of finished pages is a subset of \<open>1..N\<close> and has at most
  \<open>N\<close> elements.
\<close>

theorem recorded_pages_stay_in_range:
  assumes "requested_amount q = N" "0 \<le> N"
    and "objects w doc = empty_storage"
    and "\<forall>m\<in>set (submitted w). document_id m \<noteq> doc"
    and "consume_from_channel env bs (snd (send_to_queue q doc w))"
  shows "set (get_finished_pages (objects (consume env bs (snd (send_to_queue q doc w))) doc)) \<subseteq> {1..N} \<and>
         distinct (get_finished_pages (objects (consume env bs (snd (send_to_queue q doc w))) doc)) \<and>
         set_size (get_finished_pages (objects (consume env bs (snd (send_to_queue q doc w))) doc)) \<le> N"
proof -
  from in_range_send_to_queue [OF assms(3,4), of q] assms(1)
  have "in_range N doc (snd (send_to_queue q doc w))" by simp
  from in_range_consume [OF this assms(5)]
  have inv: "in_range N doc (consume env bs (snd (send_to_queue q doc w)))" .
  from in_range_size [OF inv] assms(2) inv show ?thesis
    by (simp add: get_finished_pages_def in_range_def)
qed

theorem recorded_pages_stay_in_range_witness:
  "set (get_finished_pages (objects (consume example_env example_deliveries
      (snd (send_to_queue (Some ''2'') ''doc'' example_world))) ''doc'')) \<subseteq> {1..2} \<and>
   set_size (get_finished_pages (objects (consume example_env example_deliveries
      (snd (send_to_queue (Some ''2'') ''doc'' example_world))) ''doc'')) \<le> 2"
proof -
  have h1: "requested_amount (Some ''2'') = 2" by (rule requested_amount_examples)
  have h2: "0 \<le> (2::int)" by simp
  have h3: "objects example_world ''doc'' = empty_storage" by simp
  have h4: "\<forall>m\<in>set (submitted example_world). document_id m \<noteq> ''doc''"
    by (simp add: submitted_def)
  have h5: "consume_from_channel example_env example_deliveries
      (snd (send_to_queue (Some ''2'') ''doc'' example_world))"
    by code_simp
  from recorded_pages_stay_in_range [OF h1 h2 h3 h4 h5] show ?thesis by simp
qed

text \<open>
  C7 as stated fails for a negative effective size: after \<open>amount=-5\<close> the set is empty,
  and its size \<open>0\<close> exceeds \<open>-5\<close>.
\<close>

theorem negative_amount_breaks_size_bound:
  "requested_amount (Some ''-5'') = - 5 \<and>
   get_finished_pages (objects (snd (send_to_queue (Some ''-5'') ''doc'' example_world)) ''doc'') = [] \<and>
   \<not> set_size (get_finished_pages (objects (snd (send_to_queue (Some ''-5'') ''doc'' example_world)) ''doc''))
       \<le> requested_amount (Some ''-5'')"
  by (simp add: requested_amount_examples objects_send_to_queue get_finished_pages_def
      set_amount_of_pages_def stored_finished_pages_def empty_storage_def set_size_def)

text \<open>
  C8. In an iteration of the consumer in which the check succeeds, the \<open>end\<close> message is
  submitted to the queue first and the state is deleted after it: the iteration adds to
  the trace, after the delay, the line of the log, the call of \<open>finished_page\<close>, the call
  of \<open>is_finished\<close> returning \<open>true\<close>, the \<open>send\<close>, and last the \<open>delete\<close>.
\<close>

theorem emit_then_destroy:
  assumes "type m = Page" "page m = Some p" "p \<noteq> 0"
    and "is_finished (finished_page p (objects w (document_id m)))"
  shows "trace (handle_message env exec m w) =
           trace w @
           [Sleep (if RANDOMIZE_TO_MAX env
                   then random_src w (random_calls w) * DELAY_PER_QUEUE_EXECUTION env
                   else DELAY_PER_QUEUE_EXECUTION env),
            Log_page exec (document_id m) (page m) (total_pages m),
            Call (document_id m) (Finished_page p),
            Call (document_id m) (Is_finished True),
            Send (end_message m),
            Call (document_id m) Delete]"
  using assms
  by (simp add: handle_message_def record_page_def stub_finished_page_def stub_is_finished_def
      stub_delete_def queue_send_def Let_def trace_delay)

theorem emit_then_destroy_witness:
  "trace (handle_message example_env ''x1'' (page_message ''doc'' 1 1)
            (stub_set_amount_of_pages ''doc'' 1 example_world)) =
     [Call ''doc'' (Set_amount_of_pages 1),
      Sleep 5,
      Log_page ''x1'' ''doc'' (Some 1) (Some 1),
      Call ''doc'' (Finished_page 1),
      Call ''doc'' (Is_finished True),
      Send \<lparr>type = End, start_time = 1000, document_id = ''doc'', page = None, total_pages = None\<rparr>,
      Call ''doc'' Delete]"
proof -
  have h1: "type (page_message ''doc'' 1 1) = Page" by (simp add: page_message_def)
  have h2: "page (page_message ''doc'' 1 1) = Some 1" by (simp add: page_message_def)
  have h3: "(1::int) \<noteq> 0" by simp
  have h4: "is_finished (finished_page 1
      (objects (stub_set_amount_of_pages ''doc'' 1 example_world) (document_id (page_message ''doc'' 1 1))))"
    by (simp add: page_message_def example_job is_finished_def finished_page_def
        set_amount_of_pages_def empty_storage_def stored_finished_pages_def
        stored_amount_of_pages_def set_add_def set_size_def)
  from emit_then_destroy [OF h1 h2 h3 h4, of example_env "''x1''"]
  show ?thesis
    by (simp add: example_env_def page_message_def end_message_def
        stub_set_amount_of_pages_def example_world_def emit_def)
qed

text \<open>
  C9, as amended. For every effective size \<open>N\<close> with \<open>1 \<le> N \<le> 2^32 - 1\<close> that the engine
  does not refuse to build, \<open>/send_to_queue\<close> stores \<open>N\<close> as the number of expected pages of
  the document, and calls \<open>sendBatch\<close> once, and nothing else, with exactly \<open>N\<close> messages:
  all of type \<open>page\<close>, with the page numbers \<open>1\<close> to \<open>N\<close> in this order, \<open>total_pages = N\<close>
  and the same document id. The message of index \<open>i\<close> carries as \<open>start_time\<close> the reading
  of the clock taken when it was built, the \<open>i\<close>-th next reading. Unless the queue refuses
  the batch, the answer is the text naming the document id and \<open>N\<close>.
\<close>

theorem dispatch_builds_one_batch:
  assumes "requested_amount q = N" "1 \<le> N" "N \<le> 4294967295" "\<not> engine_refuses w N"
  shows "\<exists>batch.
           trace (snd (send_to_queue q doc w)) =
             trace w @ [Call doc (Set_amount_of_pages N), SendBatch batch] \<and>
           amount_of_pages (objects (snd (send_to_queue q doc w)) doc) = Some N \<and>
           int (length batch) = N \<and>
           map page batch = map Some [1..N] \<and>
           (\<forall>m\<in>set batch. type m = Page \<and> total_pages m = Some N \<and> document_id m = doc) \<and>
           (\<forall>i<length batch. start_time (batch ! i) = now_src w (now_calls w + i)) \<and>
           (\<not> queue_refuses w batch \<longrightarrow>
              fst (send_to_queue q doc w) =
                Inr (Text (''Document: '' @ doc @ ''. Sent '' @ toString N
                           @ '' messages to the queue!'')))"
proof (intro exI conjI impI)
  let ?batch = "built_messages doc N w"
  from assms have le: "requested_amount q \<le> 4294967295"
    and eng: "\<not> engine_refuses w (requested_amount q)"
    by simp_all
  show "trace (snd (send_to_queue q doc w)) =
          trace w @ [Call doc (Set_amount_of_pages N), SendBatch ?batch]"
    using send_to_queue_trace(2) [OF le eng, of doc] assms(1) by simp
  show "amount_of_pages (objects (snd (send_to_queue q doc w)) doc) = Some N"
    using send_to_queue_trace(3) [OF le eng, of doc] assms(1) by (simp add: set_amount_of_pages_def)
  show "int (length ?batch) = N"
    using assms(2) by (simp add: built_messages_eq)
  show "map page ?batch = map Some [1..N]"
  proof -
    have "map page ?batch = map Some (map (\<lambda>i. int i + 1) [0..<nat N])"
      by (simp add: built_messages_eq comp_def)
    also have "map (\<lambda>i. int i + 1) [0..<nat N] = [1..N]"
      using assms(2) map_index_upto [of "nat N"] by simp
    finally show ?thesis .
  qed
  show "\<forall>m\<in>set ?batch. type m = Page \<and> total_pages m = Some N \<and> document_id m = doc"
    by (auto simp: built_messages_eq)
  show "\<forall>i<length ?batch. start_time (?batch ! i) = now_src w (now_calls w + i)"
    by (simp add: built_messages_eq)
  assume "\<not> queue_refuses w ?batch"
  then show "fst (send_to_queue q doc w) =
          Inr (Text (''Document: '' @ doc @ ''. Sent '' @ toString N @ '' messages to the queue!''))"
    using send_to_queue_trace(1) [OF le eng, of doc] assms(1) by simp
qed

theorem dispatch_builds_one_batch_witness:
  "fst (send_to_queue (Some ''3'') ''doc'' example_world) =
     Inr (Text ''Document: doc. Sent 3 messages to the queue!'') \<and>
   amount_of_pages (objects (snd (send_to_queue (Some ''3'') ''doc'' example_world)) ''doc'') = Some 3"
proof -
  have h1: "requested_amount (Some ''3'') = 3" by (rule requested_amount_examples)
  have h2: "1 \<le> (3::int)" by simp
  have h3: "(3::int) \<le> 4294967295" by simp
  have h4: "\<not> engine_refuses example_world 3" by (simp add: default_not_refused)
  have str: "toString 3 = ''3''" by (simp add: toString_def nat_toString.simps)
  from dispatch_builds_one_batch [OF h1 h2 h3 h4, of "''doc''"]
  obtain batch where b: "int (length batch) = 3"
    "amount_of_pages (objects (snd (send_to_queue (Some ''3'') ''doc'' example_world)) ''doc'') = Some 3"
    "\<not> queue_refuses example_world batch \<longrightarrow>
       fst (send_to_queue (Some ''3'') ''doc'' example_world) =
         Inr (Text (''Document: '' @ ''doc'' @ ''. Sent '' @ toString 3 @ '' messages to the queue!''))"
    by blast
  from b(1) have "\<not> queue_refuses example_world batch"
    by (simp add: default_not_refused)
  with b(2,3) str show ?thesis by simp
qed

text \<open>
  C9 as stated fails. With a clock that advances between two readings the two messages of
  \<open>amount=2\<close> carry different \<open>start_time\<close>s. For \<open>amount=-5\<close> the batch is empty. For
  \<open>amount=4294967296\<close> the language refuses the array, and for \<open>amount=4294967295\<close> an engine
  of smaller capacity does: the handler stores the amount and throws before it calls
  \<open>sendBatch\<close>. For \<open>amount=250\<close> and a queue that takes 100 messages at most, the handler
  throws after the call and answers with no document id.
\<close>

theorem dispatch_deviations:
  "trace (snd (send_to_queue (Some ''2'') ''doc'' example_world)) =
     [Call ''doc'' (Set_amount_of_pages 2),
      SendBatch
        [\<lparr>type = Page, start_time = 1000, document_id = ''doc'', page = Some 1, total_pages = Some 2\<rparr>,
         \<lparr>type = Page, start_time = 1001, document_id = ''doc'', page = Some 2, total_pages = Some 2\<rparr>]] \<and>
   trace (snd (send_to_queue (Some ''-5'') ''doc'' example_world)) =
     [Call ''doc'' (Set_amount_of_pages (- 5)), SendBatch []] \<and>
   fst (send_to_queue (Some ''4294967296'') ''doc'' example_world) = Inl RangeError \<and>
   trace (snd (send_to_queue (Some ''4294967296'') ''doc'' example_world)) =
     [Call ''doc'' (Set_amount_of_pages 4294967296)] \<and>
   fst (send_to_queue (Some ''4294967295'') ''doc'' example_world) = Inl RangeError \<and>
   trace (snd (send_to_queue (Some ''4294967295'') ''doc'' example_world)) =
     [Call ''doc'' (Set_amount_of_pages 4294967295)] \<and>
   fst (send_to_queue (Some ''250'') ''doc'' example_world) = Inl SendBatchError"
proof (intro conjI)
  have small: "\<not> engine_refuses example_world 2" "\<not> engine_refuses example_world (- 5)"
    by (simp_all add: default_not_refused)
  have "[0..<nat 2] = [0, 1]" by (simp add: upt_rec)
  then show "trace (snd (send_to_queue (Some ''2'') ''doc'' example_world)) =
     [Call ''doc'' (Set_amount_of_pages 2),
      SendBatch
        [\<lparr>type = Page, start_time = 1000, document_id = ''doc'', page = Some 1, total_pages = Some 2\<rparr>,
         \<lparr>type = Page, start_time = 1001, document_id = ''doc'', page = Some 2, total_pages = Some 2\<rparr>]]"
    using small
    by (simp add: send_to_queue_trace(2) requested_amount_examples built_messages_eq)
  show "trace (snd (send_to_queue (Some ''-5'') ''doc'' example_world)) =
     [Call ''doc'' (Set_amount_of_pages (- 5)), SendBatch []]"
    using small
    by (simp add: send_to_queue_trace(2) requested_amount_examples built_messages_eq)
  show "fst (send_to_queue (Some ''4294967296'') ''doc'' example_world) = Inl RangeError"
    by (simp add: send_to_queue_refused(1) requested_amount_examples)
  show "trace (snd (send_to_queue (Some ''4294967296'') ''doc'' example_world)) =
     [Call ''doc'' (Set_amount_of_pages 4294967296)]"
    by (simp add: send_to_queue_refused(1) requested_amount_examples stub_set_amount_of_pages_def)
  have top: "requested_amount (Some ''4294967295'') = 4294967295"
    by (simp add: requested_amount_def parseInt_def digit_value_def digits_number_def
        is_white_space_def)
  then have ref: "engine_refuses example_world (requested_amount (Some ''4294967295''))"
    by (simp add: engine_refuses_def example_world_def defaultAmount_def)
  from top have le: "requested_amount (Some ''4294967295'') \<le> 4294967295" by simp
  show "fst (send_to_queue (Some ''4294967295'') ''doc'' example_world) = Inl RangeError"
    by (simp add: send_to_queue_refused(2) [OF le ref])
  show "trace (snd (send_to_queue (Some ''4294967295'') ''doc'' example_world)) =
     [Call ''doc'' (Set_amount_of_pages 4294967295)]"
    by (simp add: send_to_queue_refused(2) [OF le ref] top stub_set_amount_of_pages_def)
  have r: "requested_amount (Some ''250'') = 250" by (rule requested_amount_examples)
  then have le250: "requested_amount (Some ''250'') \<le> 4294967295"
    and eng: "\<not> engine_refuses example_world (requested_amount (Some ''250''))"
    by (simp_all add: engine_refuses_def example_world_def)
  have "queue_refuses example_world (built_messages ''doc'' 250 example_world)"
    by (simp add: queue_refuses_def built_messages_eq defaultAmount_def example_world_def)
  with send_to_queue_trace(1) [OF le250 eng, of "''doc''"] r
  show "fst (send_to_queue (Some ''250'') ''doc'' example_world) = Inl SendBatchError"
    by simp
qed

text \<open>
  C10. A message of type \<open>page\<close> whose \<open>page\<close> is absent or \<open>0\<close> is consumed after the
  delay and the line of the log, and nothing else happens: no call of \<open>finished_page\<close>, of
  \<open>is_finished\<close> or of \<open>delete\<close>, no \<open>send\<close>, and the storage of every object is unchanged.
\<close>

theorem falsy_page_is_skipped:
  assumes "type m = Page" "page m = None \<or> page m = Some 0"
  shows "objects (handle_message env exec m w) = objects w \<and>
         trace (handle_message env exec m w) =
           trace w @
           [Sleep (if RANDOMIZE_TO_MAX env
                   then random_src w (random_calls w) * DELAY_PER_QUEUE_EXECUTION env
                   else DELAY_PER_QUEUE_EXECUTION env),
            Log_page exec (document_id m) (page m) (total_pages m)]"
  using assms by (auto simp: handle_message_def trace_delay)

theorem falsy_page_is_skipped_witness:
  "objects (handle_message example_env ''x1''
      \<lparr>type = Page, start_time = 1000, document_id = ''doc'', page = Some 0, total_pages = Some 2\<rparr>
      (stub_set_amount_of_pages ''doc'' 2 example_world))
     = objects (stub_set_amount_of_pages ''doc'' 2 example_world) \<and>
   trace (handle_message example_env ''x1''
      \<lparr>type = Page, start_time = 1000, document_id = ''doc'', page = Some 0, total_pages = Some 2\<rparr>
      (stub_set_amount_of_pages ''doc'' 2 example_world))
     = [Call ''doc'' (Set_amount_of_pages 2), Sleep 5, Log_page ''x1'' ''doc'' (Some 0) (Some 2)]"
proof -
  let ?m = "\<lparr>type = Page, start_time = 1000, document_id = ''doc'', page = Some 0, total_pages = Some 2\<rparr>"
  have h1: "type ?m = Page" by simp
  have h2: "page ?m = None \<or> page ?m = Some 0" by simp
  from falsy_page_is_skipped [OF h1 h2, of example_env "''x1''" "stub_set_amount_of_pages ''doc'' 2 example_world"]
  show ?thesis
    by (simp add: example_env_def stub_set_amount_of_pages_def example_world_def emit_def)
qed

end
